theory Spec2Isabelle
  imports Main "HOL-Library.Word"
begin

unbundle bit_operations_syntax

section \<open>The request record\<close>

text \<open>
  The struct \<open>requestRecord\<close> of \<^verbatim>\<open>putter.go\<close>. Go strings and byte slices are
  byte sequences, so both are \<open>string\<close> here (a \<open>char\<close> is one byte). The only
  observation the program makes of a \<open>time.Time\<close> is its rendering with
  \<open>Format(time.RFC3339)\<close>, so a timestamp is represented by that rendering.
\<close>

record requestRecord =
  Timestamp :: string
  Method :: string
  Uri :: string
  PayloadSize :: int
  PayloadHash :: string
  Payload :: string

definition zeroRecord :: requestRecord where
  "zeroRecord = \<lparr>Timestamp = ''0001-01-01T00:00:00Z'', Method = [], Uri = [],
     PayloadSize = 0, PayloadHash = [], Payload = []\<rparr>"

definition nl :: string where
  "nl = [CHR 0x0A]"

fun digits10 :: "nat \<Rightarrow> string" where
  "digits10 n =
     (if n < 10 then [char_of (48 + n)] else digits10 (n div 10) @ [char_of (48 + n mod 10)])"

definition Itoa :: "int \<Rightarrow> string" where
  "Itoa i = (if i < 0 then CHR ''-'' # digits10 (nat (- i)) else digits10 (nat i))"

text \<open>The method \<open>String\<close> of \<open>requestRecord\<close> (line 30).\<close>

definition String_requestRecord :: "requestRecord \<Rightarrow> string" where
  "String_requestRecord r =
     Timestamp r @ '' '' @ Method r @ '' '' @ Uri r @ '' '' @ Itoa (PayloadSize r) @ '' ''
       @ PayloadHash r @ nl @ [CHR 0x09] @ Payload r @ nl @ ''--'' @ nl"

section \<open>Slices over a store of backing arrays\<close>

text \<open>
  \<open>storeCalls\<close> swaps two slices between iterations and appends in place, so the
  model keeps Go's slices as they are: a slice is a window (\<open>off\<close>, \<open>len\<close>, \<open>cap\<close>)
  on a backing array, and the store \<open>heap\<close> holds the backing arrays by number.
  \<open>go_append\<close> is the builtin \<open>append\<close>: it writes in place when the capacity
  suffices and otherwise allocates a new array. How far the runtime over-allocates is
  not fixed by the language, so the growth rule is the parameter \<open>grow\<close> (old capacity,
  needed length); the new capacity is never below the needed length. \<open>reslice s lo hi\<close>
  is \<open>s[lo:hi]\<close>, which panics unless \<open>lo \<le> hi \<le> cap s\<close>.
\<close>

record slice =
  arr :: nat
  off :: nat
  len :: nat
  cap :: nat

type_synonym heap = "requestRecord list list"

datatype panic = SliceBoundsOutOfRange

definition make_slice :: "nat \<Rightarrow> heap \<Rightarrow> slice \<times> heap" where
  "make_slice c h = (\<lparr>arr = length h, off = 0, len = 0, cap = c\<rparr>, h @ [replicate c zeroRecord])"

definition elems :: "slice \<Rightarrow> heap \<Rightarrow> requestRecord list" where
  "elems s h = take (len s) (drop (off s) (h ! arr s))"

definition reslice :: "slice \<Rightarrow> nat \<Rightarrow> nat \<Rightarrow> panic + slice" where
  "reslice s lo hi =
     (if lo \<le> hi \<and> hi \<le> cap s
      then Inr \<lparr>arr = arr s, off = off s + lo, len = hi - lo, cap = cap s - lo\<rparr>
      else Inl SliceBoundsOutOfRange)"

definition copy_into :: "requestRecord list \<Rightarrow> nat \<Rightarrow> requestRecord list \<Rightarrow> requestRecord list" where
  "copy_into a k xs = take k a @ xs @ drop (k + length xs) a"

definition go_append ::
  "(nat \<Rightarrow> nat \<Rightarrow> nat) \<Rightarrow> slice \<Rightarrow> requestRecord list \<Rightarrow> heap \<Rightarrow> slice \<times> heap" where
  "go_append grow s xs h =
     (let n = len s + length xs in
      if n \<le> cap s
      then (s\<lparr>len := n\<rparr>, h[arr s := copy_into (h ! arr s) (off s + len s) xs])
      else
        let c = max n (grow (cap s) n) in
        (\<lparr>arr = length h, off = 0, len = n, cap = c\<rparr>,
         h @ [elems s h @ xs @ replicate (c - n) zeroRecord]))"

section \<open>Package variables\<close>

text \<open>
  The variables of lines 34 to 39 that the handler and the consumer use (\<open>port\<close> and
  \<open>headerLimit\<close> only configure the listener). \<open>callCount\<close> is a \<open>nat\<close>: with a
  negative count \<open>main\<close> panics in \<open>make\<close> before anything else runs. \<open>heap\<close> is the
  store of the slices' backing arrays. \<open>callChan\<close> holds the records sent and not yet
  received, oldest first; a send appends to it (a send that would block on a full
  channel waits for the consumer, which the sequential model leaves out). \<open>random\<close> is
  the sequence of raw values the random source will yield, the next one at index 0.
  \<open>stderr\<close> and \<open>slept\<close> log what the handler writes to \<open>os.Stderr\<close> and the durations
  (in nanoseconds) it passes to \<open>time.Sleep\<close>.
\<close>

record globals =
  callCount :: nat
  goroutinelimit :: int
  bufferRequest :: bool
  storePayload :: bool
  heap :: heap
  recordedCalls :: slice
  callChan :: "requestRecord list"
  delay :: int
  variance :: int
  chance :: int
  random :: "nat \<Rightarrow> nat"
  stderr :: string
  slept :: "int list"

section \<open>The consumer: storeCalls (lines 63 to 78)\<close>

text \<open>
  \<open>storeCall\<close> is one iteration of the loop \<open>for call := range c\<close>; the argument
  \<open>c\<close> of \<open>storeCalls\<close> is the sequence of records the consumer receives from the
  channel, in order. The assignment under the \<open>if\<close> (line 72) is followed by the
  assignment of line 74, which is not in an \<open>else\<close> branch.
\<close>

definition storeCall ::
  "(nat \<Rightarrow> nat \<Rightarrow> nat) \<Rightarrow> requestRecord \<Rightarrow> slice \<Rightarrow> globals \<Rightarrow> panic + (slice \<times> globals)" where
  "storeCall grow call swapBuf0 g =
     (let (swapBuf, h1) = go_append grow swapBuf0 [call] (heap g);
          existingCalls = recordedCalls g
      in case (if callCount g \<le> len existingCalls
               then (case reslice existingCalls 1 (callCount g) of
                       Inl p \<Rightarrow> Inl p
                     | Inr rest \<Rightarrow> Inr (go_append grow swapBuf (elems rest h1) h1))
               else Inr (existingCalls, h1)) of
           Inl p \<Rightarrow> Inl p
         | Inr (recordedCalls1, h2) \<Rightarrow>
             let (recordedCalls2, h3) = go_append grow swapBuf (elems existingCalls h2) h2
             in (case reslice existingCalls 0 0 of
                   Inl p \<Rightarrow> Inl p
                 | Inr swapBuf' \<Rightarrow> Inr (swapBuf', g\<lparr>heap := h3, recordedCalls := recordedCalls2\<rparr>)))"

fun storeCalls_loop ::
  "(nat \<Rightarrow> nat \<Rightarrow> nat) \<Rightarrow> requestRecord list \<Rightarrow> slice \<Rightarrow> globals \<Rightarrow> panic + (slice \<times> globals)" where
  "storeCalls_loop grow [] swapBuf g = Inr (swapBuf, g)"
| "storeCalls_loop grow (call # c) swapBuf g =
     (case storeCall grow call swapBuf g of
        Inl p \<Rightarrow> Inl p
      | Inr (swapBuf', g') \<Rightarrow> storeCalls_loop grow c swapBuf' g')"

definition storeCalls :: "(nat \<Rightarrow> nat \<Rightarrow> nat) \<Rightarrow> requestRecord list \<Rightarrow> globals \<Rightarrow> panic + globals" where
  "storeCalls grow c g =
     (let (swapBuf, h) = make_slice (callCount g) (heap g)
      in case storeCalls_loop grow c swapBuf (g\<lparr>heap := h\<rparr>) of
           Inl p \<Rightarrow> Inl p
         | Inr (swapBuf', g') \<Rightarrow> Inr g')"

text \<open>
  The state \<open>main\<close> sets up before serving (lines 51 to 57), from the flag values and
  the seed of the random source.
\<close>

definition main_init :: "nat \<Rightarrow> int \<Rightarrow> bool \<Rightarrow> bool \<Rightarrow> (nat \<Rightarrow> nat) \<Rightarrow> globals" where
  "main_init c lim b s seed =
     (let (rc, h) = make_slice c []
      in \<lparr>callCount = c, goroutinelimit = lim, bufferRequest = b, storePayload = s,
          heap = h, recordedCalls = rc, callChan = [], delay = 0, variance = 0, chance = 0,
          random = seed, stderr = [], slept = []\<rparr>)"

text \<open>The History Buffer as the inspection route reads it: the elements of \<open>recordedCalls\<close>.\<close>

definition history :: "globals \<Rightarrow> requestRecord list" where
  "history g = elems (recordedCalls g) (heap g)"

section \<open>Request bodies as readers\<close>

text \<open>
  \<open>req.Body\<close> is an \<open>io.Reader\<close>. A reader is modelled by the script of what it
  delivers: each event is a run of bytes and the error that arrives with its last byte
  (\<open>None\<close> for \<open>nil\<close>). \<open>Read n\<close> is one call of \<open>Read\<close> with a buffer of \<open>n\<close>
  bytes: it returns the bytes read (\<open>justRead\<close> is their number) and the error, and
  hands over at most \<open>n\<close> bytes of the current event, keeping the rest for the next
  call. A reader whose script is used up reports \<open>io.EOF\<close>.
  \<open>errors_Is_EOF\<close> is \<open>errors.Is(err, io.EOF)\<close>, which also holds for an error that
  wraps \<open>io.EOF\<close>, while \<open>bytes.Buffer.ReadFrom\<close> compares with \<open>==\<close>.
\<close>

datatype readErr = EOF | WrappedEOF string | ReadError string

fun Error :: "readErr \<Rightarrow> string" where
  "Error EOF = ''EOF''"
| "Error (WrappedEOF m) = m"
| "Error (ReadError m) = m"

fun errors_Is_EOF :: "readErr \<Rightarrow> bool" where
  "errors_Is_EOF EOF = True"
| "errors_Is_EOF (WrappedEOF m) = True"
| "errors_Is_EOF (ReadError m) = False"

type_synonym reader = "(string \<times> readErr option) list"

fun Read :: "nat \<Rightarrow> reader \<Rightarrow> (string \<times> readErr option) \<times> reader" where
  "Read n [] = (([], Some EOF), [])"
| "Read n ((d, e) # r) =
     (if length d \<le> n then ((d, e), r) else ((take n d, None), (drop n d, e) # r))"

definition rsize :: "reader \<Rightarrow> nat" where
  "rsize r = sum_list (map (\<lambda>ev. Suc (length (fst ev))) r)"

text \<open>
  \<open>bytes.Buffer.ReadFrom\<close>: it reads until \<open>io.EOF\<close> or an error, offering at least
  \<open>MinRead\<close> bytes of room on each call (how much more depends on how the buffer grew:
  the parameter \<open>spare\<close>, from the buffer's length). It reports \<open>io.EOF\<close> as \<open>nil\<close>,
  and it reads on after a call that returned no bytes and no error. The result is the
  count \<open>n\<close>, the error, and the buffer's content.
\<close>

definition MinRead :: nat where
  "MinRead = 512"

function ReadFrom :: "(nat \<Rightarrow> nat) \<Rightarrow> reader \<Rightarrow> string \<Rightarrow> int \<Rightarrow> (int \<times> readErr option) \<times> string" where
  "ReadFrom spare r buf n =
     (case Read (MinRead + spare (length buf)) r of
        ((d, e), r') \<Rightarrow>
          (case e of
             None \<Rightarrow> ReadFrom spare r' (buf @ d) (n + int (length d))
           | Some EOF \<Rightarrow> ((n + int (length d), None), buf @ d)
           | Some e' \<Rightarrow> ((n + int (length d), Some e'), buf @ d)))"
  by pat_completeness auto
termination
proof (relation "measure (\<lambda>(spare, r, buf, n). rsize r)")
  show "wf (measure (\<lambda>(spare, r, buf, n). rsize r))" by simp
next
  fix spare :: "nat \<Rightarrow> nat" and r r' :: reader and buf :: string and n :: int
    and x :: "string \<times> readErr option" and d e
  assume "(x, r') = Read (MinRead + spare (length buf)) r" "(d, e) = x" "e = None"
  then have "Read (MinRead + spare (length buf)) r = ((d, None), r')" by simp
  then have "rsize r' < rsize r"
    by (cases r) (auto simp: rsize_def MinRead_def split: if_splits)
  then show "((spare, r', buf @ d, n + int (length d)), (spare, r, buf, n))
      \<in> measure (\<lambda>(spare, r, buf, n). rsize r)"
    by simp
qed

declare ReadFrom.simps [simp del]

section \<open>SHA-256 and hexadecimal encoding\<close>

text \<open>
  \<open>sha256.Sum256\<close> as FIPS 180-4 defines it, on bytes, and \<open>hex.EncodeToString\<close>.
  The round constants and the initial hash value are written in decimal. \<open>be_bytes k w\<close>
  is the low \<open>k\<close> bytes of a word, most significant first; the message length is
  appended as a word of 64 bits.
\<close>

definition K256 :: "32 word list" where
  "K256 =
    [1116352408, 1899447441, 3049323471, 3921009573, 961987163, 1508970993,
     2453635748, 2870763221, 3624381080, 310598401, 607225278, 1426881987,
     1925078388, 2162078206, 2614888103, 3248222580, 3835390401, 4022224774,
     264347078, 604807628, 770255983, 1249150122, 1555081692, 1996064986,
     2554220882, 2821834349, 2952996808, 3210313671, 3336571891, 3584528711,
     113926993, 338241895, 666307205, 773529912, 1294757372, 1396182291,
     1695183700, 1986661051, 2177026350, 2456956037, 2730485921, 2820302411,
     3259730800, 3345764771, 3516065817, 3600352804, 4094571909, 275423344,
     430227734, 506948616, 659060556, 883997877, 958139571, 1322822218,
     1537002063, 1747873779, 1955562222, 2024104815, 2227730452, 2361852424,
     2428436474, 2756734187, 3204031479, 3329325298]"

definition H256 :: "32 word list" where
  "H256 =
    [1779033703, 3144134277, 1013904242, 2773480762, 1359893119, 2600822924,
     528734635, 1541459225]"

definition bsig0 :: "32 word \<Rightarrow> 32 word" where
  "bsig0 x = word_rotr 2 x XOR word_rotr 13 x XOR word_rotr 22 x"

definition bsig1 :: "32 word \<Rightarrow> 32 word" where
  "bsig1 x = word_rotr 6 x XOR word_rotr 11 x XOR word_rotr 25 x"

definition ssig0 :: "32 word \<Rightarrow> 32 word" where
  "ssig0 x = word_rotr 7 x XOR word_rotr 18 x XOR drop_bit 3 x"

definition ssig1 :: "32 word \<Rightarrow> 32 word" where
  "ssig1 x = word_rotr 17 x XOR word_rotr 19 x XOR drop_bit 10 x"

definition ch :: "32 word \<Rightarrow> 32 word \<Rightarrow> 32 word \<Rightarrow> 32 word" where
  "ch x y z = (x AND y) XOR (NOT x AND z)"

definition maj :: "32 word \<Rightarrow> 32 word \<Rightarrow> 32 word \<Rightarrow> 32 word" where
  "maj x y z = (x AND y) XOR (x AND z) XOR (y AND z)"

definition be_bytes :: "nat \<Rightarrow> 'a::len word \<Rightarrow> string" where
  "be_bytes k w = map (\<lambda>i. char_of (unat (drop_bit (8 * (k - 1 - i)) w AND 255))) [0..<k]"

definition be_word :: "string \<Rightarrow> 32 word" where
  "be_word bs = foldl (\<lambda>w c. push_bit 8 w + of_nat (of_char c)) 0 bs"

definition padding :: "nat \<Rightarrow> string" where
  "padding n = [char_of (128::nat)] @ replicate ((119 - n mod 64) mod 64) (char_of (0::nat))
                 @ be_bytes 8 (of_nat (8 * n) :: 64 word)"

definition pad :: "string \<Rightarrow> string" where
  "pad m = m @ padding (length m)"

fun chunks :: "nat \<Rightarrow> 'a list \<Rightarrow> 'a list list" where
  "chunks n xs = (if n = 0 \<or> xs = [] then [] else take n xs # chunks n (drop n xs))"

primrec schedule :: "nat \<Rightarrow> 32 word list \<Rightarrow> 32 word list" where
  "schedule 0 w = w"
| "schedule (Suc k) w =
     (let t = length w
      in schedule k (w @ [ssig1 (w ! (t - 2)) + w ! (t - 7) + ssig0 (w ! (t - 15)) + w ! (t - 16)]))"

definition step256 :: "32 word \<times> 32 word \<Rightarrow> 32 word list \<Rightarrow> 32 word list" where
  "step256 kw s =
     (case s of [a, b, c, d, e, f, g, h] \<Rightarrow>
        (let t1 = h + bsig1 e + ch e f g + fst kw + snd kw;
             t2 = bsig0 a + maj a b c
         in [t1 + t2, a, b, c, d + t1, e, f, g])
      | _ \<Rightarrow> s)"

definition block256 :: "32 word list \<Rightarrow> string \<Rightarrow> 32 word list" where
  "block256 hs blk =
     (let w = schedule 48 (map be_word (chunks 4 blk))
      in map2 (+) hs (fold step256 (zip K256 w) hs))"

definition blocks256 :: "32 word list \<Rightarrow> string \<Rightarrow> 32 word list" where
  "blocks256 hs p = fold (\<lambda>blk hs. block256 hs blk) (chunks 64 p) hs"

definition Sum256 :: "string \<Rightarrow> string" where
  "Sum256 m = concat (map (be_bytes 4) (blocks256 H256 (pad m)))"

text \<open>
  The running hash of \<open>sha256.New\<close>: the chaining value, the bytes written but not
  yet hashed (fewer than one block of 64), and the number of bytes written. \<open>Write\<close>
  hashes every full block it can form; \<open>Sum\<close> pads what is left and hashes it.
\<close>

record digest =
  dig_h :: "32 word list"
  dig_x :: string
  dig_len :: nat

definition sha256_New :: digest where
  "sha256_New = \<lparr>dig_h = H256, dig_x = [], dig_len = 0\<rparr>"

definition digest_Write :: "string \<Rightarrow> digest \<Rightarrow> digest" where
  "digest_Write p d =
     (let y = dig_x d @ p; n = 64 * (length y div 64)
      in \<lparr>dig_h = blocks256 (dig_h d) (take n y), dig_x = drop n y,
          dig_len = dig_len d + length p\<rparr>)"

definition digest_Sum :: "digest \<Rightarrow> string" where
  "digest_Sum d = concat (map (be_bytes 4) (blocks256 (dig_h d) (dig_x d @ padding (dig_len d))))"

text \<open>\<open>hex.EncodeToString\<close>: two lowercase digits for each byte.\<close>

definition hextable :: string where
  "hextable = ''0123456789abcdef''"

definition EncodeToString :: "string \<Rightarrow> string" where
  "EncodeToString src =
     concat (map (\<lambda>c. [hextable ! ((of_char c :: nat) div 16), hextable ! ((of_char c :: nat) mod 16)]) src)"

text \<open>
  The read loop of the streaming branch (lines 133 to 137), from the state after the
  first \<open>Read\<close>: \<open>justRead\<close>, \<open>readErr\<close>, \<open>bytesRead\<close>, and the running hash.
\<close>

function stream_loop ::
  "reader \<Rightarrow> nat \<Rightarrow> readErr option \<Rightarrow> int \<Rightarrow> digest
     \<Rightarrow> int \<times> readErr option \<times> digest" where
  "stream_loop r justRead readErr bytesRead hasher =
     (if justRead > 0 \<and> readErr = None
      then (case Read 0x8000 r of
              ((d, e), r') \<Rightarrow>
                stream_loop r' (length d) e (bytesRead + int (length d)) (digest_Write d hasher))
      else (bytesRead, readErr, hasher))"
  by pat_completeness auto
termination
proof (relation "measure (\<lambda>(r, justRead, readErr, bytesRead, hasher).
          2 * rsize r + (if justRead > 0 \<and> readErr = None then 1 else 0))")
  show "wf (measure (\<lambda>(r, justRead, readErr, bytesRead, hasher).
          2 * rsize r + (if justRead > 0 \<and> readErr = None then 1 else 0)))"
    by simp
next
  fix r r' :: reader and justRead :: nat and readErr :: "readErr option" and bytesRead :: int
    and hasher :: digest and x :: "string \<times> readErr option" and d e
  assume g: "0 < justRead \<and> readErr = None"
    and rd: "(x, r') = Read 0x8000 r" "(d, e) = x"
  from rd have "Read 0x8000 r = ((d, e), r')" by simp
  then have "r = [] \<and> r' = [] \<and> d = [] \<or> rsize r' < rsize r"
    by (cases r) (auto simp: rsize_def split: if_splits)
  then show "((r', length d, e, bytesRead + int (length d), digest_Write d hasher),
       (r, justRead, readErr, bytesRead, hasher))
      \<in> measure (\<lambda>(r, justRead, readErr, bytesRead, hasher).
          2 * rsize r + (if justRead > 0 \<and> readErr = None then 1 else 0))"
    using g by auto
qed

declare stream_loop.simps [simp del]

section \<open>Parsing and setting a parameter\<close>

text \<open>
  \<open>strconv.Atoi\<close>: an optional sign, then one or more decimal digits, and a value that
  fits an \<open>int\<close> of 64 bits; otherwise the error \<open>*strconv.NumError\<close> for this input
  (its kind, syntax or range, is not told apart).
\<close>

datatype numError = NumError string

definition isDigit :: "char \<Rightarrow> bool" where
  "isDigit c = (48 \<le> (of_char c :: nat) \<and> (of_char c :: nat) \<le> 57)"

definition decimal :: "string \<Rightarrow> nat" where
  "decimal ds = foldl (\<lambda>n c. n * 10 + ((of_char c :: nat) - 48)) 0 ds"

definition Atoi :: "string \<Rightarrow> numError + int" where
  "Atoi s =
     (let neg = (s \<noteq> [] \<and> hd s = CHR ''-'');
          ds = (if s \<noteq> [] \<and> (hd s = CHR ''+'' \<or> hd s = CHR ''-'') then tl s else s)
      in if ds = [] then Inl (NumError s)
         else if list_all isDigit ds
         then (let v = (if neg then - int (decimal ds) else int (decimal ds))
               in if - (2 ^ 63) \<le> v \<and> v < 2 ^ 63 then Inr v else Inl (NumError s))
         else Inl (NumError s))"

text \<open>
  \<open>setFromQueryParam\<close> (lines 80 to 90), with the pointer \<open>val\<close> as a value passed in
  and returned: the result is the error and what \<open>*val\<close> holds afterwards.
\<close>

definition setFromQueryParam :: "string \<Rightarrow> int \<Rightarrow> numError option \<times> int" where
  "setFromQueryParam param val =
     (if param \<noteq> []
      then (case Atoi param of
              Inl numErr \<Rightarrow> (Some numErr, val)
            | Inr num \<Rightarrow> (None, num))
      else (None, val))"

section \<open>Requests and responses\<close>

text \<open>
  What the handler reads of an \<open>*http.Request\<close>: the method, \<open>URL.Path\<close>,
  \<open>URL.RequestURI()\<close>, the parsed query \<open>URL.Query()\<close> as its key and value pairs in
  order (\<open>Get\<close> returns the first value of a key, or the empty string), and the body.
  What it observes of its surroundings on one call is in \<open>env\<close>: the value of
  \<open>runtime.NumGoroutine()\<close>, the value of \<open>time.Now()\<close>, and the room the
  \<open>bytes.Buffer\<close> offers beyond \<open>MinRead\<close>.
\<close>

record request =
  req_Method :: string
  URL_Path :: string
  URL_RequestURI :: string
  URL_Query :: "(string \<times> string) list"
  Body :: reader

record env =
  NumGoroutine :: int
  Now :: string
  spare :: "nat \<Rightarrow> nat"

definition Get :: "(string \<times> string) list \<Rightarrow> string \<Rightarrow> string" where
  "Get query k = (case map_of query k of None \<Rightarrow> [] | Some v \<Rightarrow> v)"

text \<open>\<open>strings.Contains\<close>.\<close>

fun Contains :: "string \<Rightarrow> string \<Rightarrow> bool" where
  "Contains [] substr = (substr = [])"
| "Contains (c # s) substr = (take (length substr) (c # s) = substr \<or> Contains s substr)"

text \<open>
  An \<open>http.ResponseWriter\<close>: the status code once the header is written (\<open>None\<close>
  before), and the body written so far. The first \<open>WriteHeader\<close> fixes the status; a
  write before any \<open>WriteHeader\<close> sends status 200 first. \<open>Fprintln\<close> takes the
  operands already formatted and joined by spaces.
\<close>

record response =
  status :: "nat option"
  written :: string

definition newResponse :: response where
  "newResponse = \<lparr>status = None, written = []\<rparr>"

definition WriteHeader :: "nat \<Rightarrow> response \<Rightarrow> response" where
  "WriteHeader c resp = (if status resp = None then resp\<lparr>status := Some c\<rparr> else resp)"

definition Fprint :: "string \<Rightarrow> response \<Rightarrow> response" where
  "Fprint s resp = (WriteHeader 200 resp)\<lparr>written := written resp @ s\<rparr>"

definition Fprintln :: "string \<Rightarrow> response \<Rightarrow> response" where
  "Fprintln s resp = Fprint (s @ nl) resp"

section \<open>The handler: recordRequest (lines 92 to 169)\<close>

text \<open>
  The buffered branch (lines 116 to 125). The result is \<open>bytesRead\<close>, \<open>rawHash\<close>,
  \<open>payload\<close> and \<open>readErr\<close> as they stand at line 147, with the response and the
  variables.
\<close>

definition digestBuffered ::
  "env \<Rightarrow> request \<Rightarrow> response \<Rightarrow> globals
     \<Rightarrow> (int \<times> string \<times> string \<times> readErr option) \<times> response \<times> globals" where
  "digestBuffered ev req resp g =
     (case ReadFrom (spare ev) (Body req) [] 0 of
        ((bytesRead, readErr), buf) \<Rightarrow>
          (let (resp, g) =
                 (case readErr of
                    None \<Rightarrow> (resp, g)
                  | Some e \<Rightarrow>
                      (Fprintln (Error e) (WriteHeader 500 resp),
                       g\<lparr>stderr := stderr g @ Error e @ nl\<rparr>));
               payload = buf;
               rawHash = Sum256 payload
           in ((bytesRead, rawHash, payload, readErr), resp, g)))"

text \<open>
  The streaming branch (lines 127 to 144): the first \<open>Read\<close>, the new hash with the
  first chunk written to it, the loop. \<open>rawHash\<close> and \<open>payload\<close> stay \<open>nil\<close> unless
  line 143 assigns the hash.
\<close>

definition digestStreaming ::
  "env \<Rightarrow> request \<Rightarrow> response \<Rightarrow> globals
     \<Rightarrow> (int \<times> string \<times> string \<times> readErr option) \<times> response \<times> globals" where
  "digestStreaming ev req resp g =
     (case Read 0x8000 (Body req) of
        ((d, e), r) \<Rightarrow>
          (case stream_loop r (length d) e (0 + int (length d)) (digest_Write d sha256_New) of
             (bytesRead, readErr, hasher) \<Rightarrow>
               (case readErr of
                  None \<Rightarrow> ((bytesRead, digest_Sum hasher, [], readErr), resp, g)
                | Some e' \<Rightarrow>
                    if \<not> errors_Is_EOF e'
                    then ((bytesRead, [], [], readErr),
                          Fprintln (Error e') (WriteHeader 500 resp),
                          g\<lparr>stderr := stderr g @ Error e' @ nl\<rparr>)
                    else ((bytesRead, digest_Sum hasher, [], readErr), resp, g))))"

definition digestBody ::
  "env \<Rightarrow> request \<Rightarrow> response \<Rightarrow> globals
     \<Rightarrow> (int \<times> string \<times> string \<times> readErr option) \<times> response \<times> globals" where
  "digestBody ev req resp g =
     (if bufferRequest g \<or> storePayload g
      then digestBuffered ev req resp g
      else digestStreaming ev req resp g)"

text \<open>
  \<open>Intn n\<close> of the random source, for \<open>n > 0\<close>: some value from 0 up to \<open>n - 1\<close>,
  here the next raw value of the source reduced modulo \<open>n\<close>. \<open>wrap64\<close> is the value an
  \<open>int64\<close> holds after an operation whose exact result is the argument.
\<close>

definition Intn :: "int \<Rightarrow> (nat \<Rightarrow> nat) \<Rightarrow> int \<times> (nat \<Rightarrow> nat)" where
  "Intn n rnd = (int (rnd 0) mod n, (\<lambda>i. rnd (Suc i)))"

definition wrap64 :: "int \<Rightarrow> int" where
  "wrap64 x = (x + 2 ^ 63) mod 2 ^ 64 - 2 ^ 63"

text \<open>The stall after the response is written (lines 159 to 167).\<close>

definition stall :: "globals \<Rightarrow> globals" where
  "stall g =
     (if chance g > 0
      then (case Intn 100 (random g) of
              (draw, rnd) \<Rightarrow>
                (let g = g\<lparr>random := rnd\<rparr>
                 in if chance g \<ge> draw
                    then (let (shift, g) =
                                (if variance g > 0
                                 then (case Intn (variance g) (random g) of
                                         (v, rnd) \<Rightarrow> (v - variance g div 2, g\<lparr>random := rnd\<rparr>))
                                 else (0, g))
                          in g\<lparr>slept := slept g @ [wrap64 (1000000 * wrap64 (delay g + shift))]\<rparr>)
                    else g))
      else g)"

text \<open>
  The last branch (lines 112 to 167): digest the body, send the record to \<open>callChan\<close>,
  write the reply, stall.
\<close>

definition capture :: "env \<Rightarrow> request \<Rightarrow> response \<Rightarrow> globals \<Rightarrow> response \<times> globals" where
  "capture ev req resp g =
     (case digestBody ev req resp g of
        ((bytesRead, rawHash, payload, readErr), resp, g) \<Rightarrow>
          (let hexHash = EncodeToString rawHash;
               g = g\<lparr>callChan := callChan g @
                     [\<lparr>Timestamp = Now ev, Method = req_Method req, Uri = URL_RequestURI req,
                       PayloadSize = bytesRead, PayloadHash = hexHash, Payload = payload\<rparr>]\<rparr>;
               resp = Fprintln (URL_Path req @ '' received'') resp
           in (resp, stall g)))"

text \<open>
  The configuration branch (lines 105 to 110). \<open>configEcho\<close> is the text the format of
  line 110 produces. The errors \<open>setFromQueryParam\<close> returns are not used by the handler.
\<close>

definition configEcho :: "int \<Rightarrow> int \<Rightarrow> int \<Rightarrow> int \<Rightarrow> string" where
  "configEcho d v c l =
     ''delay: '' @ Itoa d @ ''ms'' @ nl
       @ ''variance: '' @ Itoa v @ ''ms'' @ nl
       @ ''chance: '' @ Itoa c @ ''%'' @ nl
       @ ''Go routine '' @ [CHR 0x27] @ ''limit'' @ [CHR 0x27] @ '': '' @ Itoa l @ nl"

definition configDelay :: "request \<Rightarrow> response \<Rightarrow> globals \<Rightarrow> response \<times> globals" where
  "configDelay req resp g =
     (let query = URL_Query req;
          g = g\<lparr>delay := snd (setFromQueryParam (Get query ''delay'') (delay g))\<rparr>;
          g = g\<lparr>variance := snd (setFromQueryParam (Get query ''variance'') (variance g))\<rparr>;
          g = g\<lparr>chance := snd (setFromQueryParam (Get query ''chance'') (chance g))\<rparr>;
          g = g\<lparr>goroutinelimit := snd (setFromQueryParam (Get query ''limit'') (goroutinelimit g))\<rparr>
      in (Fprint (configEcho (delay g) (variance g) (chance g) (goroutinelimit g)) resp, g))"

text \<open>The inspection branch (lines 101 to 103).\<close>

definition listCalls :: "response \<Rightarrow> globals \<Rightarrow> response" where
  "listCalls resp g =
     fold (\<lambda>call. Fprintln (String_requestRecord call)) (elems (recordedCalls g) (heap g)) resp"

definition recordRequest :: "env \<Rightarrow> request \<Rightarrow> globals \<Rightarrow> response \<times> globals" where
  "recordRequest ev req g =
     (let resp = newResponse
      in if goroutinelimit g > 0 \<and> NumGoroutine ev > goroutinelimit g
         then (Fprintln (''Hit the Go Routine limit of: '' @ Itoa (goroutinelimit g))
                 (WriteHeader 503 resp), g)
         else if URL_Path req = ''/favicon.ico''
         then (Fprintln ''No icon for you!'' (WriteHeader 404 resp), g)
         else if Contains (URL_Path req) ''recordedRequests''
         then (listCalls resp g, g)
         else if Contains (URL_Path req) ''configDelay''
         then configDelay req resp g
         else capture ev req resp g)"

section \<open>Invariants of the slice store\<close>

text \<open>
  A slice is \<open>valid\<close> in a store when its backing array exists and its window lies
  inside it. Between two iterations of \<open>storeCalls\<close> the two slices are valid, empty
  \<open>swapBuf\<close> included, and rest on different backing arrays (\<open>store_inv\<close>).
\<close>

definition valid :: "slice \<Rightarrow> heap \<Rightarrow> bool" where
  "valid s h = (arr s < length h \<and> len s \<le> cap s \<and> off s + cap s \<le> length (h ! arr s))"

definition store_inv :: "slice \<Rightarrow> globals \<Rightarrow> bool" where
  "store_inv sb g = (valid sb (heap g) \<and> valid (recordedCalls g) (heap g)
     \<and> arr sb \<noteq> arr (recordedCalls g) \<and> len sb = 0)"

section \<open>Example inputs\<close>

text \<open>Concrete records, a request and an environment, for the instances below.\<close>

definition example_call :: "string \<Rightarrow> requestRecord" where
  "example_call u = zeroRecord\<lparr>Uri := u\<rparr>"

definition example_seed :: "nat \<Rightarrow> nat" where
  "example_seed i = 0"

definition example_grow :: "nat \<Rightarrow> nat \<Rightarrow> nat" where
  "example_grow c n = 2 * c"

definition example_globals :: "bool \<Rightarrow> bool \<Rightarrow> globals" where
  "example_globals b s = main_init 3 0 b s example_seed"

definition example_spare :: "nat \<Rightarrow> nat" where
  "example_spare n = 0"

definition example_env :: env where
  "example_env = \<lparr>NumGoroutine = 3, Now = ''2024-01-01T00:00:00Z'', spare = example_spare\<rparr>"

definition example_request :: "string \<Rightarrow> reader \<Rightarrow> request" where
  "example_request p b =
     \<lparr>req_Method = ''POST'', URL_Path = p, URL_RequestURI = p, URL_Query = [], Body = b\<rparr>"

definition example_config :: "(string \<times> string) list \<Rightarrow> request" where
  "example_config q =
     \<lparr>req_Method = ''GET'', URL_Path = ''/configDelay'', URL_RequestURI = ''/configDelay'',
      URL_Query = q, Body = []\<rparr>"

declare digits10.simps [simp del]

declare chunks.simps [simp del]

section \<open>Bodies as the server delivers them\<close>

text \<open>
  The server hands the handler a body whose \<open>Read\<close>, given room, returns at least one
  byte or an error: a reader is \<open>progressing\<close> when every event before its first error
  carries at least one byte. \<open>content\<close> is what such a reader delivers up to and with
  its first error, and \<open>terminal\<close> is that error (\<open>io.EOF\<close> when the script just ends).
  The body is read without error when the reader is progressing and ends with
  \<open>io.EOF\<close> or an error that wraps it (\<open>orderly\<close>); the read fails when the reader
  is progressing and ends with another error (\<open>failing\<close>).
\<close>

fun progressing :: "reader \<Rightarrow> bool" where
  "progressing [] = True"
| "progressing ((d, None) # r) = (d \<noteq> [] \<and> progressing r)"
| "progressing ((d, Some e) # r) = True"


fun orderly :: "reader \<Rightarrow> bool" where
  "orderly [] = True"
| "orderly ((d, None) # r) = (d \<noteq> [] \<and> orderly r)"
| "orderly ((d, Some e) # r) = errors_Is_EOF e"

fun content :: "reader \<Rightarrow> string" where
  "content [] = []"
| "content ((d, None) # r) = d @ content r"
| "content ((d, Some e) # r) = d"

fun terminal :: "reader \<Rightarrow> readErr" where
  "terminal [] = EOF"
| "terminal ((d, None) # r) = terminal r"
| "terminal ((d, Some e) # r) = e"

text \<open>
  \<open>hashed d m\<close>: the running hash \<open>d\<close> is the one that results from writing the bytes
  \<open>m\<close>, in any number of pieces, to a new hash.
\<close>

definition hashed :: "digest \<Rightarrow> string \<Rightarrow> bool" where
  "hashed d m =
     (dig_h d = blocks256 H256 (take (64 * (length m div 64)) m)
      \<and> dig_x d = drop (64 * (length m div 64)) m
      \<and> dig_len d = length m)"

section \<open>The consumer keeps every record\<close>

text \<open>
  Appending to a valid slice yields a valid slice holding the old elements and the new
  ones, and leaves every slice on another backing array as it was. One iteration of
  \<open>storeCalls\<close> therefore puts the new record in front of all the records held before,
  whether or not the branch of line 72 ran.
\<close>

lemma go_append_inplace:
  assumes "valid s h" "len s + length xs \<le> cap s"
  shows "go_append grow s xs h = (s\<lparr>len := len s + length xs\<rparr>, h[arr s := copy_into (h ! arr s) (off s + len s) xs])"
  using assms by (simp add: go_append_def Let_def)

lemma go_append_props:
  assumes v: "valid s h" and ap: "go_append grow s xs h = (s', h')"
  shows "valid s' h'" and "elems s' h' = elems s h @ xs" and "length h \<le> length h'"
    and "valid s h'" and "elems s h' = elems s h"
    and "arr s' = arr s \<or> arr s' = length h"
    and "len s' = len s + length xs"
proof -
  let ?n = "len s + length xs"
  show "valid s' h'" "elems s' h' = elems s h @ xs" "length h \<le> length h'"
    "valid s h'" "elems s h' = elems s h" "arr s' = arr s \<or> arr s' = length h"
    "len s' = len s + length xs"
    using v ap
    by (auto simp: go_append_def Let_def valid_def elems_def copy_into_def nth_append drop_take
        split: if_splits)
qed

lemma go_append_other:
  assumes "valid t h" "arr t \<noteq> arr s" "go_append grow s xs h = (s', h')"
  shows "valid t h'" and "elems t h' = elems t h"
  using assms
  by (auto simp: go_append_def Let_def valid_def elems_def nth_append split: if_splits)

lemma storeCall_step:
  assumes i: "store_inv sb g" and c: "1 \<le> callCount g"
  shows "\<exists>sb' g'. storeCall grow call sb g = Inr (sb', g') \<and> store_inv sb' g'
           \<and> history g' = call # history g \<and> callCount g' = callCount g"
proof -
  let ?rc = "recordedCalls g"
  obtain s1 h1 where a1: "go_append grow sb [call] (heap g) = (s1, h1)"
    by (cases "go_append grow sb [call] (heap g)")
  from i have vsb: "valid sb (heap g)" and vrc: "valid ?rc (heap g)"
    and ne: "arr sb \<noteq> arr ?rc" and l0: "len sb = 0"
    by (simp_all add: store_inv_def)
  have v1: "valid s1 h1" and e1: "elems s1 h1 = [call]" and len1: "len s1 = 1"
    and arr1: "arr s1 = arr sb \<or> arr s1 = length (heap g)"
    using go_append_props [OF vsb a1] l0 by (simp_all add: elems_def)
  have vrc1: "valid ?rc h1" and erc1: "elems ?rc h1 = elems ?rc (heap g)"
    using go_append_other [OF vrc _ a1] ne by simp_all
  have ne1: "arr ?rc \<noteq> arr s1"
    using arr1 ne vrc by (auto simp: valid_def)
  obtain r1 h2 where mid:
    "(if callCount g \<le> len ?rc
      then (case reslice ?rc 1 (callCount g) of
              Inl p \<Rightarrow> Inl p
            | Inr rest \<Rightarrow> Inr (go_append grow s1 (elems rest h1) h1))
      else Inr (?rc, h1)) = Inr (r1, h2)"
    and v2: "valid s1 h2" and e2: "elems s1 h2 = [call]"
    and vrc2: "valid ?rc h2" and erc2: "elems ?rc h2 = elems ?rc (heap g)"
  proof (cases "callCount g \<le> len ?rc")
    case False
    then show ?thesis using that v1 e1 vrc1 erc1 by simp
  next
    case True
    then have ok: "1 \<le> callCount g \<and> callCount g \<le> cap ?rc"
      using c vrc by (simp add: valid_def)
    obtain rest where rs: "reslice ?rc 1 (callCount g) = Inr rest"
      using ok by (simp add: reslice_def)
    obtain r1 h2 where a2: "go_append grow s1 (elems rest h1) h1 = (r1, h2)"
      by (cases "go_append grow s1 (elems rest h1) h1")
    have "valid s1 h2" "elems s1 h2 = [call]"
      using go_append_props [OF v1 a2] e1 by simp_all
    moreover have "valid ?rc h2" "elems ?rc h2 = elems ?rc (heap g)"
      using go_append_other [OF vrc1 ne1 a2] erc1 by simp_all
    ultimately show ?thesis using that [of r1 h2] True rs a2 by simp
  qed
  obtain r2 h3 where a3: "go_append grow s1 (elems ?rc h2) h2 = (r2, h3)"
    by (cases "go_append grow s1 (elems ?rc h2) h2")
  have v3: "valid r2 h3" and e3: "elems r2 h3 = call # elems ?rc (heap g)"
    and arr3: "arr r2 = arr s1 \<or> arr r2 = length h2"
    using go_append_props [OF v2 a3] e2 erc2 by simp_all
  have vrc3: "valid ?rc h3"
    using go_append_other [OF vrc2 ne1 a3] by simp
  have ne3: "arr ?rc \<noteq> arr r2"
    using arr3 ne1 vrc2 by (auto simp: valid_def)
  have rs0: "reslice ?rc 0 0 = Inr (?rc\<lparr>len := 0\<rparr>)"
    by (simp add: reslice_def)
  have "storeCall grow call sb g = Inr (?rc\<lparr>len := 0\<rparr>, g\<lparr>heap := h3, recordedCalls := r2\<rparr>)"
    unfolding storeCall_def using a1 mid a3 rs0 by (simp add: Let_def)
  moreover have "store_inv (?rc\<lparr>len := 0\<rparr>) (g\<lparr>heap := h3, recordedCalls := r2\<rparr>)"
    using v3 vrc3 ne3 by (simp add: store_inv_def valid_def)
  moreover have "history (g\<lparr>heap := h3, recordedCalls := r2\<rparr>) = call # history g"
    using e3 by (simp add: history_def)
  ultimately show ?thesis by simp
qed

lemma storeCalls_loop_history:
  assumes "store_inv sb g" "1 \<le> callCount g"
  shows "\<exists>sb' g'. storeCalls_loop grow c sb g = Inr (sb', g') \<and> store_inv sb' g'
           \<and> history g' = rev c @ history g \<and> callCount g' = callCount g"
  using assms
proof (induction c arbitrary: sb g)
  case Nil
  then show ?case by simp
next
  case (Cons call c)
  obtain sb1 g1 where s: "storeCall grow call sb g = Inr (sb1, g1)" and i1: "store_inv sb1 g1"
    and h1: "history g1 = call # history g" and c1: "callCount g1 = callCount g"
    using storeCall_step [OF Cons.prems] by blast
  from Cons.IH [OF i1] Cons.prems(2) c1
  obtain sb2 g2 where "storeCalls_loop grow c sb1 g1 = Inr (sb2, g2)" "store_inv sb2 g2"
    "history g2 = rev c @ history g1" "callCount g2 = callCount g1"
    by auto
  then show ?case using s h1 c1 by simp
qed

lemma main_init_props:
  "valid (recordedCalls (main_init n lim b s seed)) (heap (main_init n lim b s seed))"
  "history (main_init n lim b s seed) = []" "callCount (main_init n lim b s seed) = n"
  "arr (recordedCalls (main_init n lim b s seed)) = 0" "length (heap (main_init n lim b s seed)) = 1"
  by (simp_all add: main_init_def make_slice_def valid_def history_def elems_def)

lemma storeCalls_history:
  assumes "1 \<le> n"
  shows "\<exists>g'. storeCalls grow c (main_init n lim b s seed) = Inr g' \<and> history g' = rev c
           \<and> callCount g' = n"
proof -
  let ?g = "main_init n lim b s seed"
  obtain sb h where m: "make_slice (callCount ?g) (heap ?g) = (sb, h)"
    by (cases "make_slice (callCount ?g) (heap ?g)")
  have i: "store_inv sb (?g\<lparr>heap := h\<rparr>)"
    using m main_init_props [of n]
    by (auto simp: store_inv_def make_slice_def valid_def nth_append)
  have hh: "history (?g\<lparr>heap := h\<rparr>) = []"
    using m by (auto simp: main_init_def history_def elems_def make_slice_def)
  have cc: "1 \<le> callCount (?g\<lparr>heap := h\<rparr>)"
    using assms main_init_props(3) [of n] by simp
  from storeCalls_loop_history [OF i cc, of grow c]
  obtain sb' g' where "storeCalls_loop grow c sb (?g\<lparr>heap := h\<rparr>) = Inr (sb', g')"
     "history g' = rev c @ history (?g\<lparr>heap := h\<rparr>)" "callCount g' = callCount (?g\<lparr>heap := h\<rparr>)"
    by blast
  then show ?thesis using m hh main_init_props(3) [of n]
    by (simp add: storeCalls_def)
qed

text \<open>
  C1 asks that the History Buffer never holds more than \<open>C\<close> records. At capacity 3
  and four records received, the buffer \<open>storeCalls\<close> leaves holds four: the assignment
  of line 74 follows the one of line 72 unconditionally and keeps every record.
\<close>

theorem C1_length_exceeds_capacity:
  "\<exists>g. storeCalls grow [example_call ''A'', example_call ''B'', example_call ''C'', example_call ''D'']
          (main_init 3 lim b s seed) = Inr g
        \<and> callCount g = 3 \<and> length (history g) = 4"
  using storeCalls_history [of 3 grow "[example_call ''A'', example_call ''B'', example_call ''C'', example_call ''D'']" lim b s seed]
  by auto

text \<open>
  C2 asks that with capacity 3 the records A, B, C, D leave the buffer \<open>[D, C, B]\<close>, the
  oldest record evicted. \<open>storeCalls\<close> leaves \<open>[D, C, B, A]\<close>: nothing is evicted.
\<close>

theorem C2_no_eviction:
  "\<exists>g. storeCalls grow [example_call ''A'', example_call ''B'', example_call ''C'', example_call ''D'']
          (main_init 3 lim b s seed) = Inr g
        \<and> history g = [example_call ''D'', example_call ''C'', example_call ''B'', example_call ''A'']
        \<and> history g \<noteq> [example_call ''D'', example_call ''C'', example_call ''B'']"
  using storeCalls_history [of 3 grow "[example_call ''A'', example_call ''B'', example_call ''C'', example_call ''D'']" lim b s seed]
  by auto

text \<open>
  C5. For every capacity \<open>C \<ge> 1\<close> and every sequence \<open>c\<close> of \<open>N \<le> C\<close> records that
  the consumer receives, starting from the state \<open>main\<close> sets up, \<open>storeCalls\<close> does not
  panic and the History Buffer then holds exactly those \<open>N\<close> records, the most recent
  first (it is the reversed sequence), none evicted.
\<close>

theorem C5_within_capacity:
  assumes "1 \<le> C" and "length c \<le> C"
  shows "\<exists>g. storeCalls grow c (main_init C lim b s seed) = Inr g \<and> history g = rev c
           \<and> length (history g) = length c"
  using storeCalls_history [OF assms(1), of grow c lim b s seed] by auto

text \<open>C5 at capacity 3 with two records.\<close>

theorem C5_within_capacity_witness:
  "(1::nat) \<le> 3 \<and> length [example_call ''A'', example_call ''B''] \<le> 3 \<and>
   (\<exists>g. storeCalls example_grow [example_call ''A'', example_call ''B'']
          (main_init 3 0 False False example_seed) = Inr g
        \<and> history g = [example_call ''B'', example_call ''A''])"
  using C5_within_capacity [of 3 "[example_call ''A'', example_call ''B'']" example_grow 0 False False example_seed]
  by auto

lemma example_path:
  "''/x'' \<noteq> ''/favicon.ico''" "\<not> Contains ''/x'' ''recordedRequests''"
  "\<not> Contains ''/x'' ''configDelay''"
  by simp_all

lemma main_init_fields:
  "callCount (main_init c lim b s seed) = c"
  "goroutinelimit (main_init c lim b s seed) = lim"
  "bufferRequest (main_init c lim b s seed) = b"
  "storePayload (main_init c lim b s seed) = s"
  "callChan (main_init c lim b s seed) = []"
  "delay (main_init c lim b s seed) = 0"
  "variance (main_init c lim b s seed) = 0"
  "chance (main_init c lim b s seed) = 0"
  "random (main_init c lim b s seed) = seed"
  "stderr (main_init c lim b s seed) = []"
  "slept (main_init c lim b s seed) = []"
  by (simp_all add: main_init_def make_slice_def)

lemma example_globals_fields:
  "callCount (example_globals b s) = 3"
  "goroutinelimit (example_globals b s) = 0"
  "bufferRequest (example_globals b s) = b"
  "storePayload (example_globals b s) = s"
  "callChan (example_globals b s) = []"
  "delay (example_globals b s) = 0"
  "variance (example_globals b s) = 0"
  "chance (example_globals b s) = 0"
  "stderr (example_globals b s) = []"
  "slept (example_globals b s) = []"
  by (simp_all add: example_globals_def main_init_fields)

lemma example_fields:
  "URL_Path (example_request p b) = p" "Body (example_request p b) = b"
  "URL_Query (example_request p b) = []" "NumGoroutine example_env = 3"
  by (simp_all add: example_request_def example_env_def)

section \<open>Routing and the admission guard\<close>

lemma status_WriteHeader: "status (WriteHeader c resp) = (if status resp = None then Some c else status resp)"
  by (simp add: WriteHeader_def)

lemma status_Fprintln: "status (Fprintln s resp) = (if status resp = None then Some 200 else status resp)"
  by (simp add: Fprintln_def Fprint_def WriteHeader_def)

lemma written_Fprintln: "written (Fprintln s resp) = written resp @ s @ nl"
  by (simp add: Fprintln_def Fprint_def WriteHeader_def)

lemma status_listCalls:
  "status (listCalls resp g) = status resp \<or> status (listCalls resp g) = Some 200"
proof -
  have "status (fold (\<lambda>call. Fprintln (f call)) xs r)
      = (if xs = [] \<or> status r \<noteq> None then status r else Some 200)"
    for f :: "requestRecord \<Rightarrow> string" and xs r
    by (induction xs arbitrary: r) (auto simp: status_Fprintln)
  then show ?thesis by (auto simp: listCalls_def)
qed

lemma digestBuffered_result:
  assumes "ReadFrom (spare ev) (Body req) [] 0 = ((n, e), buf)"
  shows "digestBuffered ev req resp g =
           ((n, Sum256 buf, buf, e),
            (case e of None \<Rightarrow> (resp, g)
             | Some e' \<Rightarrow> (Fprintln (Error e') (WriteHeader 500 resp),
                           g\<lparr>stderr := stderr g @ Error e' @ nl\<rparr>)))"
  using assms by (cases e) (simp_all add: digestBuffered_def)

lemma digestStreaming_result:
  assumes "Read 0x8000 (Body req) = ((d, e0), r)"
    and "stream_loop r (length d) e0 (int (length d)) (digest_Write d sha256_New) = (n, e, hasher)"
  shows "digestStreaming ev req resp g =
           (if e = None \<or> errors_Is_EOF (the e)
            then ((n, digest_Sum hasher, [], e), resp, g)
            else ((n, [], [], e), Fprintln (Error (the e)) (WriteHeader 500 resp),
                  g\<lparr>stderr := stderr g @ Error (the e) @ nl\<rparr>))"
  using assms by (cases e) (simp_all add: digestStreaming_def)

lemma digestBody_cases:
  "(\<exists>n raw p e. digestBody ev req resp g = ((n, raw, p, e), resp, g))
   \<or> (\<exists>n raw p e. digestBody ev req resp g =
        ((n, raw, p, Some e), Fprintln (Error e) (WriteHeader 500 resp),
         g\<lparr>stderr := stderr g @ Error e @ nl\<rparr>))"
proof (cases "bufferRequest g \<or> storePayload g")
  case True
  obtain ne buf where a: "ReadFrom (spare ev) (Body req) [] 0 = (ne, buf)"
    by (cases "ReadFrom (spare ev) (Body req) [] 0")
  obtain n e where b: "ne = (n, e)" by (cases ne)
  have "digestBody ev req resp g = digestBuffered ev req resp g"
    using True by (simp add: digestBody_def)
  then show ?thesis
    using digestBuffered_result [OF a [unfolded b], of resp g] by (cases e) simp_all
next
  case False
  obtain de r where a: "Read 0x8000 (Body req) = (de, r)"
    by (cases "Read 0x8000 (Body req)")
  obtain d e0 where b: "de = (d, e0)" by (cases de)
  obtain n e hasher where c: "stream_loop r (length d) e0 (int (length d)) (digest_Write d sha256_New) = (n, e, hasher)"
    by (cases "stream_loop r (length d) e0 (int (length d)) (digest_Write d sha256_New)")
  have "digestBody ev req resp g = digestStreaming ev req resp g"
    using False by (simp add: digestBody_def)
  then show ?thesis
    using digestStreaming_result [OF a [unfolded b] c, of ev resp g]
    by (cases "e = None \<or> errors_Is_EOF (the e)") auto
qed

lemma capture_status:
  "status (fst (capture ev req newResponse g)) = Some 200
     \<or> status (fst (capture ev req newResponse g)) = Some 500"
  using digestBody_cases [of ev req newResponse g]
  by (auto simp: capture_def Let_def status_Fprintln status_WriteHeader newResponse_def)

lemma configDelay_status: "status (fst (configDelay req newResponse g)) = Some 200"
  by (simp add: configDelay_def Let_def Fprint_def WriteHeader_def newResponse_def)

lemma recordRequest_rejected:
  assumes "goroutinelimit g > 0 \<and> NumGoroutine ev > goroutinelimit g"
  shows "recordRequest ev req g =
           (Fprintln (''Hit the Go Routine limit of: '' @ Itoa (goroutinelimit g))
              (WriteHeader 503 newResponse), g)"
proof -
  from assms have "(goroutinelimit g > 0 \<and> NumGoroutine ev > goroutinelimit g) = True"
    by simp
  then show ?thesis
    unfolding recordRequest_def Let_def by (simp only: if_True)
qed

lemma recordRequest_admitted:
  assumes "\<not> (goroutinelimit g > 0 \<and> NumGoroutine ev > goroutinelimit g)"
  shows "recordRequest ev req g =
           (if URL_Path req = ''/favicon.ico''
            then (Fprintln ''No icon for you!'' (WriteHeader 404 newResponse), g)
            else if Contains (URL_Path req) ''recordedRequests'' then (listCalls newResponse g, g)
            else if Contains (URL_Path req) ''configDelay'' then configDelay req newResponse g
            else capture ev req newResponse g)"
proof -
  from assms have "(goroutinelimit g > 0 \<and> NumGoroutine ev > goroutinelimit g) = False"
    by simp
  then show ?thesis
    unfolding recordRequest_def Let_def by (simp only: if_False)
qed

lemma favicon_response:
  "Fprintln ''No icon for you!'' (WriteHeader 404 newResponse)
     = \<lparr>status = Some 404, written = ''No icon for you!'' @ nl\<rparr>"
  by (simp add: Fprintln_def Fprint_def WriteHeader_def newResponse_def)

lemma rejected_response:
  "Fprintln (''Hit the Go Routine limit of: '' @ s) (WriteHeader 503 newResponse)
     = \<lparr>status = Some 503, written = ''Hit the Go Routine limit of: '' @ s @ nl\<rparr>"
  by (simp add: Fprintln_def Fprint_def WriteHeader_def newResponse_def)

lemma listCalls_status:
  "status (listCalls newResponse g) = None \<or> status (listCalls newResponse g) = Some 200"
  using status_listCalls [of newResponse g] by (simp add: newResponse_def)

lemma admitted_status:
  assumes "\<not> (goroutinelimit g > 0 \<and> NumGoroutine ev > goroutinelimit g)"
    and "URL_Path req \<noteq> ''/favicon.ico''"
  shows "status (fst (recordRequest ev req g)) \<in> {None, Some 200, Some 500}"
proof -
  consider "recordRequest ev req g = (listCalls newResponse g, g)"
    | "recordRequest ev req g = configDelay req newResponse g"
    | "recordRequest ev req g = capture ev req newResponse g"
    using recordRequest_admitted [OF assms(1), of req] assms(2)
    by (cases "Contains (URL_Path req) ''recordedRequests''";
        cases "Contains (URL_Path req) ''configDelay''") simp_all
  then show ?thesis
  proof cases
    case 1
    then show ?thesis using listCalls_status [of g] by auto
  next
    case 2
    then show ?thesis using configDelay_status [of req g] by simp
  next
    case 3
    then show ?thesis using capture_status [of ev req g] by auto
  qed
qed

text \<open>
  C9. With \<open>goroutinelimit\<close> zero or negative the handler never answers 503, whatever
  \<open>runtime.NumGoroutine()\<close> returns. With a positive limit that the goroutine count
  exceeds, the answer is status 503 with a body naming the limit, and the package
  variables are unchanged: no record is sent to \<open>callChan\<close>, nothing is read or hashed,
  and \<open>time.Sleep\<close> is not called.
\<close>

theorem C9_admission_guard:
  "(goroutinelimit g \<le> 0 \<longrightarrow> status (fst (recordRequest ev req g)) \<noteq> Some 503) \<and>
   (goroutinelimit g > 0 \<and> NumGoroutine ev > goroutinelimit g \<longrightarrow>
      recordRequest ev req g =
        (\<lparr>status = Some 503,
          written = ''Hit the Go Routine limit of: '' @ Itoa (goroutinelimit g) @ nl\<rparr>, g))"
proof (intro conjI impI)
  assume "goroutinelimit g \<le> 0"
  then have adm: "\<not> (goroutinelimit g > 0 \<and> NumGoroutine ev > goroutinelimit g)" by simp
  show "status (fst (recordRequest ev req g)) \<noteq> Some 503"
  proof (cases "URL_Path req = ''/favicon.ico''")
    case True
    then show ?thesis
      using recordRequest_admitted [OF adm, of req] by (simp add: favicon_response)
  next
    case False
    then show ?thesis using admitted_status [OF adm False] by auto
  qed
next
  assume "goroutinelimit g > 0 \<and> NumGoroutine ev > goroutinelimit g"
  then show "recordRequest ev req g =
        (\<lparr>status = Some 503,
          written = ''Hit the Go Routine limit of: '' @ Itoa (goroutinelimit g) @ nl\<rparr>, g)"
    using recordRequest_rejected [of g ev req] by (simp only: rejected_response)
qed

text \<open>C9 at limit 0 and at limit 2 with three goroutines.\<close>

theorem C9_admission_guard_witness:
  "goroutinelimit (example_globals False False) \<le> 0
   \<and> status (fst (recordRequest example_env (example_request ''/x'' [])
        (example_globals False False))) \<noteq> Some 503
   \<and> goroutinelimit (main_init 3 2 False False example_seed) > 0
   \<and> NumGoroutine example_env > goroutinelimit (main_init 3 2 False False example_seed)
   \<and> recordRequest example_env (example_request ''/x'' []) (main_init 3 2 False False example_seed)
       = (\<lparr>status = Some 503, written = ''Hit the Go Routine limit of: 2'' @ nl\<rparr>,
          main_init 3 2 False False example_seed)"
proof -
  have i: "Itoa 2 = ''2''" by code_simp
  show ?thesis
    using C9_admission_guard [of "example_globals False False" example_env "example_request ''/x'' []"]
      C9_admission_guard [of "main_init 3 2 False False example_seed" example_env "example_request ''/x'' []"]
    by (simp add: example_globals_fields main_init_fields example_fields i)
qed

text \<open>
  C10. For a request the admission guard lets through, the answer is the fixed 404
  favicon response exactly when the path equals \<open>/favicon.ico\<close>. Any other path goes
  to the later branches: inspection or configuration by substring, else capture; the
  path \<open>/x/favicon.ico\<close> is captured.
\<close>

theorem C10_favicon_exact:
  assumes "\<not> (goroutinelimit g > 0 \<and> NumGoroutine ev > goroutinelimit g)"
  shows "((fst (recordRequest ev req g) = \<lparr>status = Some 404, written = ''No icon for you!'' @ nl\<rparr>)
            = (URL_Path req = ''/favicon.ico'')) \<and>
         (URL_Path req \<noteq> ''/favicon.ico'' \<longrightarrow>
            recordRequest ev req g =
              (if Contains (URL_Path req) ''recordedRequests'' then (listCalls newResponse g, g)
               else if Contains (URL_Path req) ''configDelay'' then configDelay req newResponse g
               else capture ev req newResponse g)) \<and>
         (URL_Path req = ''/x/favicon.ico'' \<longrightarrow>
            recordRequest ev req g = capture ev req newResponse g)"
proof (intro conjI impI)
  show "(fst (recordRequest ev req g) = \<lparr>status = Some 404, written = ''No icon for you!'' @ nl\<rparr>)
            = (URL_Path req = ''/favicon.ico'')"
  proof (cases "URL_Path req = ''/favicon.ico''")
    case True
    then show ?thesis
      using recordRequest_admitted [OF assms, of req] by (simp add: favicon_response)
  next
    case False
    have "status (fst (recordRequest ev req g)) \<noteq> Some 404"
      using admitted_status [OF assms False] by auto
    then show ?thesis using False by auto
  qed
next
  assume "URL_Path req \<noteq> ''/favicon.ico''"
  then show "recordRequest ev req g =
              (if Contains (URL_Path req) ''recordedRequests'' then (listCalls newResponse g, g)
               else if Contains (URL_Path req) ''configDelay'' then configDelay req newResponse g
               else capture ev req newResponse g)"
    using recordRequest_admitted [OF assms, of req] by simp
next
  assume p: "URL_Path req = ''/x/favicon.ico''"
  have "\<not> Contains ''/x/favicon.ico'' ''recordedRequests''"
    and "\<not> Contains ''/x/favicon.ico'' ''configDelay''"
    by simp_all
  then show "recordRequest ev req g = capture ev req newResponse g"
    using recordRequest_admitted [OF assms, of req] p by simp
qed

text \<open>C10 at the paths \<open>/favicon.ico\<close> and \<open>/x/favicon.ico\<close>.\<close>

theorem C10_favicon_exact_witness:
  "\<not> (goroutinelimit (example_globals False False) > 0
        \<and> NumGoroutine example_env > goroutinelimit (example_globals False False))
   \<and> fst (recordRequest example_env (example_request ''/favicon.ico'' [])
        (example_globals False False))
       = \<lparr>status = Some 404, written = ''No icon for you!'' @ nl\<rparr>
   \<and> fst (recordRequest example_env (example_request ''/x/favicon.ico'' [])
        (example_globals False False))
       \<noteq> \<lparr>status = Some 404, written = ''No icon for you!'' @ nl\<rparr>
   \<and> recordRequest example_env (example_request ''/x/favicon.ico'' [])
        (example_globals False False)
       = capture example_env (example_request ''/x/favicon.ico'' []) newResponse
           (example_globals False False)"
  using C10_favicon_exact [of "example_globals False False" example_env
      "example_request ''/favicon.ico'' []"]
    C10_favicon_exact [of "example_globals False False" example_env
      "example_request ''/x/favicon.ico'' []"]
  by (auto simp add: example_globals_fields main_init_fields example_fields)

section \<open>The running hash\<close>

text \<open>
  Writing a body to the running hash piece by piece and summing gives the SHA-256 of
  the whole body: full blocks are hashed as they form, and the blocks of the padded
  message are the same blocks.
\<close>

lemma chunks_Nil: "chunks n [] = []"
  by (simp add: chunks.simps)

lemma chunks_block:
  assumes "64 \<le> length a"
  shows "chunks 64 a = take 64 a # chunks 64 (drop 64 a)"
  using assms by (subst chunks.simps) auto

lemma chunks_append:
  "length a = 64 * j \<Longrightarrow> chunks 64 (a @ b) = chunks 64 a @ chunks 64 b"
proof (induction j arbitrary: a)
  case 0
  then show ?case by (simp add: chunks_Nil)
next
  case (Suc j)
  then have l: "64 \<le> length a" and d: "length (drop 64 a) = 64 * j" by simp_all
  have "chunks 64 (a @ b) = take 64 (a @ b) # chunks 64 (drop 64 (a @ b))"
    using l by (intro chunks_block) simp
  also have "\<dots> = take 64 a # chunks 64 (drop 64 a @ b)"
    using l by simp
  also have "\<dots> = take 64 a # chunks 64 (drop 64 a) @ chunks 64 b"
    using Suc.IH [OF d] by simp
  also have "\<dots> = chunks 64 a @ chunks 64 b"
    using chunks_block [OF l] by simp
  finally show ?case .
qed

lemma blocks256_append:
  "length a = 64 * j \<Longrightarrow> blocks256 hs (a @ b) = blocks256 (blocks256 hs a) b"
  by (simp add: blocks256_def chunks_append)

lemma hashed_New: "hashed sha256_New []"
  by (simp add: hashed_def sha256_New_def blocks256_def chunks_Nil)

lemma hashed_Write:
  assumes "hashed d m"
  shows "hashed (digest_Write p d) (m @ p)"
proof -
  let ?k = "64 * (length m div 64)"
  let ?y = "drop ?k m @ p"
  let ?n = "64 * (length ?y div 64)"
  have k: "?k \<le> length m" by simp
  have ly: "length ?y = length m mod 64 + length p"
    by (simp add: minus_mult_div_eq_mod mult.commute)
  have "length (m @ p) = ?k + length ?y"
    using k by simp
  then have "length (m @ p) div 64 = length m div 64 + length ?y div 64"
    by (metis add.commute div_mult_self2 zero_neq_numeral)
  then have kn: "64 * (length (m @ p) div 64) = ?k + ?n"
    by (simp add: distrib_left)
  have mp: "m @ p = take ?k m @ ?y" by simp
  have lt: "length (take ?k m) = ?k" using k by simp
  have t: "take (?k + ?n) (m @ p) = take ?k m @ take ?n ?y"
    by (subst mp) (simp only: take_append lt, simp)
  have dr: "drop (?k + ?n) (m @ p) = drop ?n ?y"
    by (subst mp) (simp only: drop_append lt, simp)
  have x: "dig_x d = drop ?k m" and h: "dig_h d = blocks256 H256 (take ?k m)"
    and n: "dig_len d = length m"
    using assms by (simp_all add: hashed_def)
  have "dig_h (digest_Write p d) = blocks256 (blocks256 H256 (take ?k m)) (take ?n ?y)"
    by (simp add: digest_Write_def Let_def x h)
  also have "\<dots> = blocks256 H256 (take ?k m @ take ?n ?y)"
    using blocks256_append [OF lt, symmetric] .
  finally have "dig_h (digest_Write p d) = blocks256 H256 (take (?k + ?n) (m @ p))"
    by (simp only: t)
  moreover have "dig_x (digest_Write p d) = drop (?k + ?n) (m @ p)"
    by (simp only: dr) (simp add: digest_Write_def Let_def x)
  moreover have "dig_len (digest_Write p d) = length (m @ p)"
    by (simp add: digest_Write_def Let_def n)
  ultimately show ?thesis
    unfolding hashed_def kn by simp
qed

lemma hashed_Sum:
  assumes "hashed d m"
  shows "digest_Sum d = Sum256 m"
proof -
  let ?k = "64 * (length m div 64)"
  have lt: "length (take ?k m) = ?k" by simp
  have "blocks256 (dig_h d) (dig_x d @ padding (dig_len d))
      = blocks256 (blocks256 H256 (take ?k m)) (drop ?k m @ padding (length m))"
    using assms by (simp add: hashed_def)
  also have "\<dots> = blocks256 H256 (take ?k m @ drop ?k m @ padding (length m))"
    using blocks256_append [OF lt, symmetric] .
  also have "\<dots> = blocks256 H256 (pad m)"
    by (simp only: pad_def append_assoc [symmetric] append_take_drop_id)
  finally show ?thesis
    by (simp add: digest_Sum_def Sum256_def)
qed

lemma step256_length: "length (step256 kw s) = length s"
  by (simp add: step256_def Let_def split: list.splits)

lemma fold_step256_length: "length (fold step256 kws s) = length s"
  by (induction kws arbitrary: s) (simp_all add: step256_length)

lemma block256_length: "length (block256 hs blk) = length hs"
  by (simp add: block256_def Let_def fold_step256_length)

lemma blocks256_length: "length (blocks256 hs p) = length hs"
proof -
  have "length (fold (\<lambda>blk hs. block256 hs blk) bs hs) = length hs" for bs
    by (induction bs arbitrary: hs) (simp_all add: block256_length)
  then show ?thesis by (simp add: blocks256_def)
qed

lemma Sum256_length: "length (Sum256 m) = 32"
proof -
  have "length (concat (map (be_bytes 4) ws)) = 4 * length ws" for ws :: "32 word list"
    by (induction ws) (simp_all add: be_bytes_def)
  then show ?thesis
    by (simp add: Sum256_def blocks256_length H256_def)
qed

lemma EncodeToString_length: "length (EncodeToString src) = 2 * length src"
  by (induction src) (simp_all add: EncodeToString_def)

section \<open>Reading a body\<close>

text \<open>
  On a progressing reader every \<open>Read\<close> either delivers at least one byte with no
  error or ends the body; both read loops then consume exactly \<open>content\<close> and end
  with \<open>terminal\<close>.
\<close>

lemma orderly_progressing: "orderly r \<Longrightarrow> progressing r"
  by (induction r rule: orderly.induct) simp_all

lemma orderly_terminal: "orderly r \<Longrightarrow> errors_Is_EOF (terminal r)"
  by (induction r rule: orderly.induct) simp_all



lemma Read_progressing:
  assumes "progressing r" and "0 < k" and "Read k r = ((d, e), r')"
  shows "(e = None \<and> d \<noteq> [] \<and> progressing r' \<and> content r = d @ content r'
           \<and> terminal r' = terminal r)
       \<or> (e = Some (terminal r) \<and> content r = d)"
proof (cases r)
  case Nil
  then show ?thesis using assms by simp
next
  case (Cons ev rest)
  obtain d0 e0 where ev: "ev = (d0, e0)" by (cases ev)
  show ?thesis
  proof (cases "length d0 \<le> k")
    case True
    then show ?thesis using assms Cons ev by (cases e0) auto
  next
    case False
    then have "drop k d0 \<noteq> []" "take k d0 \<noteq> []" using assms(2) by auto
    then show ?thesis using assms Cons ev False by (cases e0) auto
  qed
qed

lemma ReadFrom_progressing:
  "progressing r \<Longrightarrow>
   ReadFrom sp r buf n =
     ((n + int (length (content r)), (if terminal r = EOF then None else Some (terminal r))),
      buf @ content r)"
proof (induction sp r buf n rule: ReadFrom.induct)
  case (1 sp r buf n)
  let ?k = "MinRead + sp (length buf)"
  obtain de r' where a: "Read ?k r = (de, r')" by (cases "Read ?k r")
  obtain d e where b: "de = (d, e)" by (cases de)
  have k: "0 < ?k" by (simp add: MinRead_def)
  from Read_progressing [OF "1.prems" k a [unfolded b]]
  show ?case
  proof
    assume h: "e = None \<and> d \<noteq> [] \<and> progressing r' \<and> content r = d @ content r'
        \<and> terminal r' = terminal r"
    then have "ReadFrom sp r' (buf @ d) (n + int (length d)) =
       ((n + int (length d) + int (length (content r')),
         (if terminal r' = EOF then None else Some (terminal r'))), (buf @ d) @ content r')"
      using "1.IH" [OF a [symmetric] b [symmetric]] by simp
    then show ?thesis
      using h a b by (subst ReadFrom.simps) simp
  next
    assume h: "e = Some (terminal r) \<and> content r = d"
    then show ?thesis
      using a b by (subst ReadFrom.simps) (cases "terminal r"; simp)
  qed
qed

lemma stream_loop_stop:
  "\<not> (0 < justRead \<and> readErr = None) \<Longrightarrow>
   stream_loop r justRead readErr bytesRead hasher = (bytesRead, readErr, hasher)"
  by (subst stream_loop.simps) auto

lemma stream_loop_progressing:
  "progressing r \<Longrightarrow> 0 < justRead \<Longrightarrow> readErr = None \<Longrightarrow> hashed hasher m \<Longrightarrow>
   \<exists>hasher'. stream_loop r justRead readErr bytesRead hasher =
       (bytesRead + int (length (content r)), Some (terminal r), hasher')
     \<and> hashed hasher' (m @ content r)"
proof (induction r justRead readErr bytesRead hasher arbitrary: m rule: stream_loop.induct)
  case (1 r justRead readErr bytesRead hasher)
  obtain de r' where a: "Read 0x8000 r = (de, r')" by (cases "Read 0x8000 r")
  obtain d e where b: "de = (d, e)" by (cases de)
  have g: "0 < justRead \<and> readErr = None" using "1.prems" by simp
  have unfold: "stream_loop r justRead readErr bytesRead hasher =
      stream_loop r' (length d) e (bytesRead + int (length d)) (digest_Write d hasher)"
    using g a b by (subst stream_loop.simps) simp
  have w: "hashed (digest_Write d hasher) (m @ d)"
    using "1.prems"(4) by (rule hashed_Write)
  from Read_progressing [OF "1.prems"(1) _ a [unfolded b]]
  show ?case
  proof
    show "0 < (0x8000::nat)" by simp
  next
    assume h: "e = None \<and> d \<noteq> [] \<and> progressing r' \<and> content r = d @ content r'
        \<and> terminal r' = terminal r"
    then obtain hasher' where
      "stream_loop r' (length d) e (bytesRead + int (length d)) (digest_Write d hasher) =
         (bytesRead + int (length d) + int (length (content r')), Some (terminal r'), hasher')"
      and "hashed hasher' ((m @ d) @ content r')"
      using "1.IH" [OF g a [symmetric] b [symmetric] _ _ _ w] by auto
    then show ?thesis using unfold h by simp
  next
    assume h: "e = Some (terminal r) \<and> content r = d"
    then show ?thesis using unfold w by (simp add: stream_loop_stop)
  qed
qed

lemma digestBuffered_progressing:
  assumes "progressing (Body req)"
  shows "digestBuffered ev req resp g =
     ((int (length (content (Body req))), Sum256 (content (Body req)), content (Body req),
       (if terminal (Body req) = EOF then None else Some (terminal (Body req)))),
      (case (if terminal (Body req) = EOF then None else Some (terminal (Body req))) of
         None \<Rightarrow> (resp, g)
       | Some e' \<Rightarrow> (Fprintln (Error e') (WriteHeader 500 resp),
                     g\<lparr>stderr := stderr g @ Error e' @ nl\<rparr>)))"
  using digestBuffered_result [OF ReadFrom_progressing [OF assms, of "spare ev" "[]" 0], of resp g]
  by simp

lemma digestStreaming_progressing:
  assumes "progressing (Body req)"
  shows "digestStreaming ev req resp g =
     (if errors_Is_EOF (terminal (Body req))
      then ((int (length (content (Body req))), Sum256 (content (Body req)), [],
             Some (terminal (Body req))), resp, g)
      else ((int (length (content (Body req))), [], [], Some (terminal (Body req))),
            Fprintln (Error (terminal (Body req))) (WriteHeader 500 resp),
            g\<lparr>stderr := stderr g @ Error (terminal (Body req)) @ nl\<rparr>))"
proof -
  obtain de r where a: "Read 0x8000 (Body req) = (de, r)" by (cases "Read 0x8000 (Body req)")
  obtain d e where b: "de = (d, e)" by (cases de)
  have w: "hashed (digest_Write d sha256_New) d"
    using hashed_Write [OF hashed_New, of d] by simp
  from Read_progressing [OF assms _ a [unfolded b]]
  have "\<exists>hasher. stream_loop r (length d) e (int (length d)) (digest_Write d sha256_New) =
      (int (length (content (Body req))), Some (terminal (Body req)), hasher)
      \<and> hashed hasher (content (Body req))"
  proof
    show "0 < (0x8000::nat)" by simp
  next
    assume h: "e = None \<and> d \<noteq> [] \<and> progressing r \<and> content (Body req) = d @ content r
        \<and> terminal r = terminal (Body req)"
    then show ?thesis
      using stream_loop_progressing [of r "length d" e "digest_Write d sha256_New" d "int (length d)"] w
      by simp
  next
    assume h: "e = Some (terminal (Body req)) \<and> content (Body req) = d"
    then show ?thesis using w by (simp add: stream_loop_stop)
  qed
  then obtain hasher where s: "stream_loop r (length d) e (int (length d)) (digest_Write d sha256_New) =
      (int (length (content (Body req))), Some (terminal (Body req)), hasher)"
    and hh: "hashed hasher (content (Body req))"
    by blast
  from digestStreaming_result [OF a [unfolded b] s, of ev resp g] hashed_Sum [OF hh]
  show ?thesis by simp
qed

lemma digestBuffered_orderly:
  assumes "orderly (Body req)"
  shows "\<exists>e out. digestBuffered ev req resp g =
     ((int (length (content (Body req))), Sum256 (content (Body req)), content (Body req), e), out)"
  using digestBuffered_progressing [OF orderly_progressing [OF assms], of ev resp g] by simp

lemma digestStreaming_orderly:
  assumes "orderly (Body req)"
  shows "digestStreaming ev req resp g =
     ((int (length (content (Body req))), Sum256 (content (Body req)), [],
       Some (terminal (Body req))), resp, g)"
  using digestStreaming_progressing [OF orderly_progressing [OF assms], of ev resp g]
    orderly_terminal [OF assms]
  by simp


section \<open>The capture branch\<close>

lemma capture_result:
  assumes "digestBody ev req resp g = ((n, raw, p, e), resp1, g1)"
  shows "capture ev req resp g =
           (Fprintln (URL_Path req @ '' received'') resp1,
            stall (g1\<lparr>callChan := callChan g1 @
              [\<lparr>Timestamp = Now ev, Method = req_Method req, Uri = URL_RequestURI req,
                PayloadSize = n, PayloadHash = EncodeToString raw, Payload = p\<rparr>]\<rparr>))"
  using assms by (simp add: capture_def Let_def)

lemma stall_idle: "chance g \<le> 0 \<Longrightarrow> stall g = g"
  by (simp add: stall_def)

lemma stall_callChan: "callChan (stall g) = callChan g"
  by (simp add: stall_def Intn_def Let_def split: prod.splits)

lemma stall_certain:
  assumes "99 \<le> chance g"
  shows "\<exists>d. slept (stall g) = slept g @ [d]"
proof -
  have "int (random g 0) mod 100 \<le> 99"
    using pos_mod_bound [of 100 "int (random g 0)"] by simp
  then have "int (random g 0) mod 100 \<le> chance g" using assms by simp
  then show ?thesis
    using assms by (simp add: stall_def Intn_def Let_def split: prod.splits)
qed

lemma digestBody_frame:
  assumes "digestBody ev req resp g = (x, resp1, g1)"
  shows "g1 = g \<or> (\<exists>s. g1 = g\<lparr>stderr := s\<rparr>)"
  using digestBody_cases [of ev req resp g] assms by auto

lemma capture_slept_idle:
  assumes "chance g \<le> 0"
  shows "slept (snd (capture ev req resp g)) = slept g"
proof -
  obtain n raw p e resp1 g1 where d: "digestBody ev req resp g = ((n, raw, p, e), resp1, g1)"
    by (metis prod_cases3 surj_pair)
  from digestBody_frame [OF d] have "chance g1 = chance g" "slept g1 = slept g" by auto
  then show ?thesis
    using assms by (simp add: capture_result [OF d] stall_idle)
qed

lemma capture_slept_certain:
  assumes "99 \<le> chance g"
  shows "\<exists>d. slept (snd (capture ev req resp g)) = slept g @ [d]"
proof -
  obtain n raw p e resp1 g1 where d: "digestBody ev req resp g = ((n, raw, p, e), resp1, g1)"
    by (metis prod_cases3 surj_pair)
  let ?g2 = "g1\<lparr>callChan := callChan g1 @
              [\<lparr>Timestamp = Now ev, Method = req_Method req, Uri = URL_RequestURI req,
                PayloadSize = n, PayloadHash = EncodeToString raw, Payload = p\<rparr>]\<rparr>"
  from digestBody_frame [OF d] have f: "chance g1 = chance g" "slept g1 = slept g" by auto
  then have "99 \<le> chance ?g2" using assms by simp
  from stall_certain [OF this] obtain dur where "slept (stall ?g2) = slept ?g2 @ [dur]" by blast
  then show ?thesis using f by (simp add: capture_result [OF d])
qed

lemma recordRequest_capture:
  assumes "\<not> (goroutinelimit g > 0 \<and> NumGoroutine ev > goroutinelimit g)"
    and "URL_Path req \<noteq> ''/favicon.ico''"
    and "\<not> Contains (URL_Path req) ''recordedRequests''"
    and "\<not> Contains (URL_Path req) ''configDelay''"
  shows "recordRequest ev req g = capture ev req newResponse g"
  using recordRequest_admitted [OF assms(1), of req] assms(2-4) by simp

text \<open>
  C8. For every request that reaches the capture branch: if \<open>chance \<le> 0\<close> then
  \<open>time.Sleep\<close> is not called, whatever \<open>delay\<close> and \<open>variance\<close> are; if
  \<open>chance = 100\<close> then \<open>time.Sleep\<close> is called once, since the draw
  \<open>random.Intn(100)\<close> is below 100.
\<close>

theorem C8_stall_boundaries:
  assumes "\<not> (goroutinelimit g > 0 \<and> NumGoroutine ev > goroutinelimit g)"
    and "URL_Path req \<noteq> ''/favicon.ico''"
    and "\<not> Contains (URL_Path req) ''recordedRequests''"
    and "\<not> Contains (URL_Path req) ''configDelay''"
  shows "(chance g \<le> 0 \<longrightarrow> slept (snd (recordRequest ev req g)) = slept g) \<and>
         (chance g = 100 \<longrightarrow> (\<exists>d. slept (snd (recordRequest ev req g)) = slept g @ [d]))"
  using capture_slept_idle [of g ev req newResponse] capture_slept_certain [of g ev req newResponse]
  by (simp add: recordRequest_capture [OF assms])

text \<open>C8 at a request for \<open>/x\<close>, with \<open>chance\<close> 0 and with \<open>chance\<close> 100.\<close>

theorem C8_stall_boundaries_witness:
  "\<not> (goroutinelimit (example_globals False False) > 0
        \<and> NumGoroutine example_env > goroutinelimit (example_globals False False))
   \<and> URL_Path (example_request ''/x'' []) \<noteq> ''/favicon.ico''
   \<and> \<not> Contains (URL_Path (example_request ''/x'' [])) ''recordedRequests''
   \<and> \<not> Contains (URL_Path (example_request ''/x'' [])) ''configDelay''
   \<and> chance ((example_globals False False)\<lparr>delay := 50, variance := 10\<rparr>) \<le> 0
   \<and> slept (snd (recordRequest example_env (example_request ''/x'' [])
         ((example_globals False False)\<lparr>delay := 50, variance := 10\<rparr>))) = []
   \<and> chance ((example_globals False False)\<lparr>delay := 50, chance := 100\<rparr>) = 100
   \<and> (\<exists>d. slept (snd (recordRequest example_env (example_request ''/x'' [])
         ((example_globals False False)\<lparr>delay := 50, chance := 100\<rparr>))) = [d])"
  using C8_stall_boundaries [of "(example_globals False False)\<lparr>delay := 50, variance := 10\<rparr>"
      example_env "example_request ''/x'' []"]
    C8_stall_boundaries [of "(example_globals False False)\<lparr>delay := 50, chance := 100\<rparr>"
      example_env "example_request ''/x'' []"]
  by (simp add: example_globals_fields main_init_fields example_fields)

section \<open>The configuration branch\<close>

lemma configDelay_result:
  "configDelay req newResponse g =
     (\<lparr>status = Some 200,
       written = configEcho
         (snd (setFromQueryParam (Get (URL_Query req) ''delay'') (delay g)))
         (snd (setFromQueryParam (Get (URL_Query req) ''variance'') (variance g)))
         (snd (setFromQueryParam (Get (URL_Query req) ''chance'') (chance g)))
         (snd (setFromQueryParam (Get (URL_Query req) ''limit'') (goroutinelimit g)))\<rparr>,
      g\<lparr>delay := snd (setFromQueryParam (Get (URL_Query req) ''delay'') (delay g)),
        variance := snd (setFromQueryParam (Get (URL_Query req) ''variance'') (variance g)),
        chance := snd (setFromQueryParam (Get (URL_Query req) ''chance'') (chance g)),
        goroutinelimit := snd (setFromQueryParam (Get (URL_Query req) ''limit'') (goroutinelimit g))\<rparr>)"
  by (simp add: configDelay_def Let_def Fprint_def WriteHeader_def newResponse_def)

lemma recordRequest_config:
  assumes "\<not> (goroutinelimit g > 0 \<and> NumGoroutine ev > goroutinelimit g)"
    and "URL_Path req \<noteq> ''/favicon.ico''"
    and "\<not> Contains (URL_Path req) ''recordedRequests''"
    and "Contains (URL_Path req) ''configDelay''"
  shows "recordRequest ev req g = configDelay req newResponse g"
  using recordRequest_admitted [OF assms(1), of req] assms(2-4) by simp

lemma Atoi_examples:
  "Atoi ''50'' = Inr 50" "Atoi ''abc'' = Inl (NumError ''abc'')" "Atoi ''7'' = Inr 7"
  by code_simp+

lemma Itoa_examples: "Itoa 0 = ''0''" "Itoa 7 = ''7''" "Itoa 50 = ''50''"
  by code_simp+

lemma example_config_fields:
  "URL_Path (example_config q) = ''/configDelay''" "URL_Query (example_config q) = q"
  by (simp_all add: example_config_def)

lemma example_config_path:
  "''/configDelay'' \<noteq> ''/favicon.ico''" "\<not> Contains ''/configDelay'' ''recordedRequests''"
  "Contains ''/configDelay'' ''configDelay''"
  by simp_all

lemma example_config_result:
  assumes "Get q ''delay'' = ''50''" and "Get q ''variance'' = []"
    and "Get q ''chance'' = [] \<or> Get q ''chance'' = ''abc''" and "Get q ''limit'' = ''7''"
  shows "recordRequest example_env (example_config q) (example_globals False False) =
     (\<lparr>status = Some 200,
       written = ''delay: 50ms'' @ nl @ ''variance: 0ms'' @ nl @ ''chance: 0%'' @ nl
         @ ''Go routine '' @ [CHR 0x27] @ ''limit'' @ [CHR 0x27] @ '': 7'' @ nl\<rparr>,
      (example_globals False False)\<lparr>delay := 50, variance := 0, chance := 0, goroutinelimit := 7\<rparr>)"
proof -
  have "recordRequest example_env (example_config q) (example_globals False False)
      = configDelay (example_config q) newResponse (example_globals False False)"
    by (rule recordRequest_config)
       (simp_all add: example_globals_fields example_fields example_config_fields)
  then show ?thesis
    using assms
    by (auto simp add: configDelay_result configEcho_def setFromQueryParam_def Atoi_examples
        Itoa_examples example_globals_fields example_config_fields)
qed

text \<open>
  C7, as amended. For every request that reaches the configuration branch, each of the
  fields \<open>delay\<close>, \<open>variance\<close>, \<open>chance\<close> and \<open>goroutinelimit\<close> becomes what
  \<open>setFromQueryParam\<close> leaves for its own parameter (\<open>delay\<close>, \<open>variance\<close>,
  \<open>chance\<close>, \<open>limit\<close>), independently of the other three. \<open>setFromQueryParam\<close>
  overwrites the value when the parameter is present (not empty) and parses as an
  integer; when it does not parse, it returns the error to the handler and leaves the
  value as it was. The handler does not use that error: the reply has status 200 and
  its text is the echo of the four resulting values and nothing else.
\<close>

theorem C7_config_parameters:
  assumes "\<not> (goroutinelimit g > 0 \<and> NumGoroutine ev > goroutinelimit g)"
    and "URL_Path req \<noteq> ''/favicon.ico''"
    and "\<not> Contains (URL_Path req) ''recordedRequests''"
    and "Contains (URL_Path req) ''configDelay''"
  shows "recordRequest ev req g =
     (\<lparr>status = Some 200,
       written =
         ''delay: ''
           @ Itoa (snd (setFromQueryParam (Get (URL_Query req) ''delay'') (delay g)))
           @ ''ms'' @ nl
         @ ''variance: ''
           @ Itoa (snd (setFromQueryParam (Get (URL_Query req) ''variance'') (variance g)))
           @ ''ms'' @ nl
         @ ''chance: ''
           @ Itoa (snd (setFromQueryParam (Get (URL_Query req) ''chance'') (chance g)))
           @ ''%'' @ nl
         @ ''Go routine '' @ [CHR 0x27] @ ''limit'' @ [CHR 0x27] @ '': ''
           @ Itoa (snd (setFromQueryParam (Get (URL_Query req) ''limit'') (goroutinelimit g)))
           @ nl\<rparr>,
      g\<lparr>delay := snd (setFromQueryParam (Get (URL_Query req) ''delay'') (delay g)),
        variance := snd (setFromQueryParam (Get (URL_Query req) ''variance'') (variance g)),
        chance := snd (setFromQueryParam (Get (URL_Query req) ''chance'') (chance g)),
        goroutinelimit := snd (setFromQueryParam (Get (URL_Query req) ''limit'') (goroutinelimit g))\<rparr>)
     \<and> (p1 \<noteq> [] \<and> Atoi p1 = Inr num \<longrightarrow> setFromQueryParam p1 val = (None, num))
     \<and> (p2 \<noteq> [] \<and> Atoi p2 = Inl numErr \<longrightarrow> setFromQueryParam p2 val = (Some numErr, val))
     \<and> setFromQueryParam [] val = (None, val)"
  unfolding recordRequest_config [OF assms] configDelay_result
  by (simp add: configEcho_def setFromQueryParam_def)

text \<open>
  C7 as stated fails where it has the error surfaced to the caller of the request. At
  the query \<open>delay=50&chance=abc&limit=7\<close>, \<open>setFromQueryParam\<close> returns an error for
  \<open>abc\<close>, and yet the reply and the variables are those of the query
  \<open>delay=50&limit=7\<close>: status 200 and the echo, with no trace of the error.
\<close>

theorem C7_counterexample:
  "setFromQueryParam ''abc'' 0 = (Some (NumError ''abc''), 0)
   \<and> recordRequest example_env
         (example_config [(''delay'', ''50''), (''chance'', ''abc''), (''limit'', ''7'')])
         (example_globals False False)
       = recordRequest example_env
         (example_config [(''delay'', ''50''), (''limit'', ''7'')])
         (example_globals False False)
   \<and> fst (recordRequest example_env
         (example_config [(''delay'', ''50''), (''chance'', ''abc''), (''limit'', ''7'')])
         (example_globals False False))
       = \<lparr>status = Some 200,
          written = ''delay: 50ms'' @ nl @ ''variance: 0ms'' @ nl @ ''chance: 0%'' @ nl
            @ ''Go routine '' @ [CHR 0x27] @ ''limit'' @ [CHR 0x27] @ '': 7'' @ nl\<rparr>"
proof -
  have a: "recordRequest example_env
      (example_config [(''delay'', ''50''), (''chance'', ''abc''), (''limit'', ''7'')])
      (example_globals False False) =
     (\<lparr>status = Some 200,
       written = ''delay: 50ms'' @ nl @ ''variance: 0ms'' @ nl @ ''chance: 0%'' @ nl
         @ ''Go routine '' @ [CHR 0x27] @ ''limit'' @ [CHR 0x27] @ '': 7'' @ nl\<rparr>,
      (example_globals False False)\<lparr>delay := 50, variance := 0, chance := 0, goroutinelimit := 7\<rparr>)"
    by (rule example_config_result) (simp_all add: Get_def)
  have b: "recordRequest example_env
      (example_config [(''delay'', ''50''), (''limit'', ''7'')])
      (example_globals False False) =
     (\<lparr>status = Some 200,
       written = ''delay: 50ms'' @ nl @ ''variance: 0ms'' @ nl @ ''chance: 0%'' @ nl
         @ ''Go routine '' @ [CHR 0x27] @ ''limit'' @ [CHR 0x27] @ '': 7'' @ nl\<rparr>,
      (example_globals False False)\<lparr>delay := 50, variance := 0, chance := 0, goroutinelimit := 7\<rparr>)"
    by (rule example_config_result) (simp_all add: Get_def)
  have c: "setFromQueryParam ''abc'' 0 = (Some (NumError ''abc''), 0)"
    by (simp add: setFromQueryParam_def Atoi_examples)
  show ?thesis
    unfolding a b using c by simp
qed

text \<open>
  The amended C7 at the query \<open>delay=50&chance=abc&limit=7\<close>: \<open>delay\<close> and the limit
  are set, \<open>chance\<close> keeps its value, and the reply is the echo with status 200.
\<close>

theorem C7_config_parameters_witness:
  "\<not> (goroutinelimit (example_globals False False) > 0
        \<and> NumGoroutine example_env > goroutinelimit (example_globals False False))
   \<and> URL_Path (example_config [(''delay'', ''50''), (''chance'', ''abc''), (''limit'', ''7'')])
       \<noteq> ''/favicon.ico''
   \<and> \<not> Contains
         (URL_Path (example_config [(''delay'', ''50''), (''chance'', ''abc''), (''limit'', ''7'')]))
         ''recordedRequests''
   \<and> Contains
         (URL_Path (example_config [(''delay'', ''50''), (''chance'', ''abc''), (''limit'', ''7'')]))
         ''configDelay''
   \<and> recordRequest example_env
         (example_config [(''delay'', ''50''), (''chance'', ''abc''), (''limit'', ''7'')])
         (example_globals False False)
       = (\<lparr>status = Some 200,
           written = ''delay: 50ms'' @ nl @ ''variance: 0ms'' @ nl @ ''chance: 0%'' @ nl
             @ ''Go routine '' @ [CHR 0x27] @ ''limit'' @ [CHR 0x27] @ '': 7'' @ nl\<rparr>,
          (example_globals False False)
            \<lparr>delay := 50, variance := 0, chance := 0, goroutinelimit := 7\<rparr>)
   \<and> ''50'' \<noteq> [] \<and> Atoi ''50'' = Inr 50 \<and> setFromQueryParam ''50'' 3 = (None, 50)
   \<and> ''abc'' \<noteq> [] \<and> Atoi ''abc'' = Inl (NumError ''abc'')
   \<and> setFromQueryParam ''abc'' 3 = (Some (NumError ''abc''), 3)"
  using C7_config_parameters [of "example_globals False False" example_env
      "example_config [(''delay'', ''50''), (''chance'', ''abc''), (''limit'', ''7'')]"
      "''50''" 50 3 "''abc''" "NumError ''abc''"]
  by (simp add: example_globals_fields example_fields example_config_fields Atoi_examples
        Itoa_examples setFromQueryParam_def Get_def)

section \<open>The record sent to the channel\<close>

lemma digestBody_callChan:
  assumes "digestBody ev req resp g = (x, resp1, g1)"
  shows "callChan g1 = callChan g"
  using digestBody_frame [OF assms] by auto

lemma capture_callChan:
  assumes "digestBody ev req resp g = ((n, raw, p, e), resp1, g1)"
  shows "callChan (snd (capture ev req resp g)) = callChan g @
           [\<lparr>Timestamp = Now ev, Method = req_Method req, Uri = URL_RequestURI req,
             PayloadSize = n, PayloadHash = EncodeToString raw, Payload = p\<rparr>]"
  using digestBody_callChan [OF assms]
  by (simp add: capture_result [OF assms] stall_callChan)

lemma capture_callChan_buffered:
  assumes "orderly (Body req)" and "bufferRequest g \<or> storePayload g"
  shows "callChan (snd (capture ev req resp g)) = callChan g @
           [\<lparr>Timestamp = Now ev, Method = req_Method req, Uri = URL_RequestURI req,
             PayloadSize = int (length (content (Body req))),
             PayloadHash = EncodeToString (Sum256 (content (Body req))),
             Payload = content (Body req)\<rparr>]"
proof -
  obtain e out where "digestBuffered ev req resp g =
     ((int (length (content (Body req))), Sum256 (content (Body req)), content (Body req), e), out)"
    using digestBuffered_orderly [OF assms(1)] by blast
  then have "digestBody ev req resp g =
     ((int (length (content (Body req))), Sum256 (content (Body req)), content (Body req), e),
      fst out, snd out)"
    using assms(2) by (simp add: digestBody_def)
  from capture_callChan [OF this] show ?thesis .
qed

lemma capture_callChan_streaming:
  assumes "orderly (Body req)" and "\<not> (bufferRequest g \<or> storePayload g)"
  shows "callChan (snd (capture ev req resp g)) = callChan g @
           [\<lparr>Timestamp = Now ev, Method = req_Method req, Uri = URL_RequestURI req,
             PayloadSize = int (length (content (Body req))),
             PayloadHash = EncodeToString (Sum256 (content (Body req))),
             Payload = []\<rparr>]"
proof -
  have "digestBody ev req resp g =
     ((int (length (content (Body req))), Sum256 (content (Body req)), [],
       Some (terminal (Body req))), resp, g)"
    using assms(2) digestStreaming_orderly [OF assms(1)] by (simp add: digestBody_def)
  from capture_callChan [OF this] show ?thesis .
qed

text \<open>
  C4 asks that the record's payload is empty unless \<open>storePayload\<close> is set. With
  \<open>bufferRequest\<close> set and \<open>storePayload\<close> not (flag \<open>-b\<close> alone), a request with
  body \<open>hello\<close> is recorded with the payload \<open>hello\<close>: line 154 stores whatever the
  buffered branch read, and \<open>storePayload\<close> is consulted only to choose that branch.
\<close>

theorem C4_payload_kept_without_retention:
  "bufferRequest (example_globals True False)
   \<and> \<not> storePayload (example_globals True False)
   \<and> map Payload (callChan (snd (recordRequest example_env
         (example_request ''/x'' [(''hello'', None)]) (example_globals True False))))
       = [''hello'']"
proof -
  let ?g = "example_globals True False"
  let ?req = "example_request ''/x'' [(''hello'', None)]"
  have r: "recordRequest example_env ?req ?g = capture example_env ?req newResponse ?g"
    by (rule recordRequest_capture) (simp_all add: example_globals_fields main_init_fields example_fields)
  have "orderly (Body ?req)" "bufferRequest ?g \<or> storePayload ?g"
    by (simp_all add: example_globals_fields main_init_fields example_fields)
  from capture_callChan_buffered [OF this, of example_env newResponse]
  show ?thesis
    by (simp add: r example_globals_fields main_init_fields example_fields)
qed








lemma hextable_nth: "k < 16 \<Longrightarrow> hextable ! k \<in> set hextable"
  by (rule nth_mem) (simp add: hextable_def)

lemma EncodeToString_lowercase: "list_all (\<lambda>c. c \<in> set hextable) (EncodeToString src)"
proof -
  have "(of_char c :: nat) div 16 < 16" for c
  proof -
    have "(of_char c :: nat) mod 256 < 256" by (rule mod_less_divisor) simp
    then have "(of_char c :: nat) < 256" by (simp only: of_char_mod_256)
    then show ?thesis by arith
  qed
  then show ?thesis
    by (induction src) (simp_all add: EncodeToString_def hextable_nth)
qed

text \<open>
  C6. Take a request body that is read without error (\<open>orderly\<close>): as the bodies the
  server hands to the handler do, each \<open>Read\<close> returns at least one byte until one
  reports the end of the stream. For every request with such a body that reaches the
  capture branch, once with neither \<open>bufferRequest\<close> nor \<open>storePayload\<close> set
  (streaming: the running hash is fed chunks of at most 32 KiB) and once with one of
  them set (buffered: \<open>Sum256\<close> of the whole body), the two records sent to
  \<open>callChan\<close> carry the same hash and the same size: the SHA-256 of the body's
  content, as 64 lowercase hexadecimal digits, and the content's length.
\<close>

theorem C6_streaming_equals_buffered:
  assumes "orderly (Body req)"
    and "\<not> (goroutinelimit g1 > 0 \<and> NumGoroutine ev1 > goroutinelimit g1)"
    and "\<not> (goroutinelimit g2 > 0 \<and> NumGoroutine ev2 > goroutinelimit g2)"
    and "URL_Path req \<noteq> ''/favicon.ico''"
    and "\<not> Contains (URL_Path req) ''recordedRequests''"
    and "\<not> Contains (URL_Path req) ''configDelay''"
    and "\<not> (bufferRequest g1 \<or> storePayload g1)"
    and "bufferRequest g2 \<or> storePayload g2"
  shows "PayloadHash (last (callChan (snd (recordRequest ev1 req g1))))
           = PayloadHash (last (callChan (snd (recordRequest ev2 req g2))))
       \<and> PayloadSize (last (callChan (snd (recordRequest ev1 req g1))))
           = PayloadSize (last (callChan (snd (recordRequest ev2 req g2))))
       \<and> PayloadHash (last (callChan (snd (recordRequest ev1 req g1))))
           = EncodeToString (Sum256 (content (Body req)))
       \<and> PayloadSize (last (callChan (snd (recordRequest ev1 req g1))))
           = int (length (content (Body req)))
       \<and> list_all (\<lambda>c. c \<in> set hextable)
            (PayloadHash (last (callChan (snd (recordRequest ev1 req g1)))))
       \<and> length (PayloadHash (last (callChan (snd (recordRequest ev1 req g1))))) = 64
       \<and> length (callChan (snd (recordRequest ev1 req g1))) = length (callChan g1) + 1
       \<and> length (callChan (snd (recordRequest ev2 req g2))) = length (callChan g2) + 1"
proof -
  have r1: "recordRequest ev1 req g1 = capture ev1 req newResponse g1"
    by (rule recordRequest_capture [OF assms(2) assms(4-6)])
  have r2: "recordRequest ev2 req g2 = capture ev2 req newResponse g2"
    by (rule recordRequest_capture [OF assms(3) assms(4-6)])
  show ?thesis
    unfolding r1 r2
      capture_callChan_streaming [OF assms(1) assms(7)]
      capture_callChan_buffered [OF assms(1) assms(8)]
    by (simp add: EncodeToString_lowercase EncodeToString_length Sum256_length)
qed

text \<open>C6 at a body that arrives as \<open>he\<close> and then \<open>llo\<close> with the end of the stream.\<close>

theorem C6_streaming_equals_buffered_witness:
  "orderly (Body (example_request ''/x'' [(''he'', None), (''llo'', Some EOF)]))
   \<and> \<not> (goroutinelimit (example_globals False False) > 0
        \<and> NumGoroutine example_env > goroutinelimit (example_globals False False))
   \<and> \<not> (goroutinelimit (example_globals True False) > 0
        \<and> NumGoroutine example_env > goroutinelimit (example_globals True False))
   \<and> URL_Path (example_request ''/x'' [(''he'', None), (''llo'', Some EOF)]) \<noteq> ''/favicon.ico''
   \<and> \<not> Contains (URL_Path (example_request ''/x'' [(''he'', None), (''llo'', Some EOF)]))
         ''recordedRequests''
   \<and> \<not> Contains (URL_Path (example_request ''/x'' [(''he'', None), (''llo'', Some EOF)]))
         ''configDelay''
   \<and> \<not> (bufferRequest (example_globals False False)
          \<or> storePayload (example_globals False False))
   \<and> (bufferRequest (example_globals True False)
          \<or> storePayload (example_globals True False))
   \<and> PayloadHash (last (callChan (snd (recordRequest example_env
         (example_request ''/x'' [(''he'', None), (''llo'', Some EOF)])
         (example_globals False False)))))
       = PayloadHash (last (callChan (snd (recordRequest example_env
         (example_request ''/x'' [(''he'', None), (''llo'', Some EOF)])
         (example_globals True False)))))
   \<and> PayloadSize (last (callChan (snd (recordRequest example_env
         (example_request ''/x'' [(''he'', None), (''llo'', Some EOF)])
         (example_globals False False))))) = 5
   \<and> PayloadSize (last (callChan (snd (recordRequest example_env
         (example_request ''/x'' [(''he'', None), (''llo'', Some EOF)])
         (example_globals True False))))) = 5
   \<and> PayloadHash (last (callChan (snd (recordRequest example_env
         (example_request ''/x'' [(''he'', None), (''llo'', Some EOF)])
         (example_globals False False)))))
       = EncodeToString (Sum256 ''hello'')
   \<and> length (PayloadHash (last (callChan (snd (recordRequest example_env
         (example_request ''/x'' [(''he'', None), (''llo'', Some EOF)])
         (example_globals False False)))))) = 64"
  using C6_streaming_equals_buffered [of "example_request ''/x'' [(''he'', None), (''llo'', Some EOF)]"
      "example_globals False False" example_env
      "example_globals True False" example_env]
  by (auto simp add: example_globals_fields main_init_fields example_fields)

end
